theory Spec2Isabelle
  imports Complex_Main
begin

section \<open>Data model\<close>

text \<open>
  The program is the PySpark job \<^verbatim>\<open>dataproc_heart_analysis.py\<close>: one module-level
  configuration block and the function \<^verbatim>\<open>main\<close>.  A DataFrame is modelled by its
  schema (the ordered list of column names) and its rows; a row maps a column name to
  a value.  Only the names listed in the schema are columns of the DataFrame.

  A double is a finite number, an infinity or NaN.  What double arithmetic returns
  for an exact real result (the rounding, the overflow to an infinity, the underflow
  to zero) is not defined by the job: it is a collaborator, see \<open>round_pow\<close> and
  \<open>round_div\<close> below.  A value is null, a string, an integer, a double, a boolean or
  a vector of doubles; the types a CSV reader can also infer for a column (dates,
  timestamps) are not modelled.
\<close>

datatype dbl = Fin real | PInf | NInf | NaN

datatype val = Null | S string | I int | D dbl | B bool | V "dbl list"

type_synonym row = "string \<Rightarrow> val"

record dataset =
  cols :: "string list"
  rows :: "row list"

text \<open>
  The exceptions the job can meet, and a text for each as an f-string prints it (the
  wording of Spark's messages is not modelled).
\<close>

datatype error =
    AnalysisException string
  | IllegalArgumentException string
  | ReadFailure string
  | WriteFailure string

fun describe :: "error \<Rightarrow> string" where
  "describe (AnalysisException c) = ''cannot resolve column '' @ c"
| "describe (IllegalArgumentException c) = ''illegal argument '' @ c"
| "describe (ReadFailure m) = m"
| "describe (WriteFailure m) = m"

definition and_then :: "error + 'a \<Rightarrow> ('a \<Rightarrow> error + 'b) \<Rightarrow> error + 'b" where
  "and_then x f = (case x of Inl e \<Rightarrow> Inl e | Inr a \<Rightarrow> f a)"

text \<open>Views of a dataset used to state results: one column, and the schema of a result.\<close>

definition column :: "string \<Rightarrow> dataset \<Rightarrow> val list" where
  "column c d = map (\<lambda>r. r c) (rows d)"

definition result_column :: "string \<Rightarrow> error + dataset \<Rightarrow> val list option" where
  "result_column c x = (case x of Inl e \<Rightarrow> None | Inr d \<Rightarrow> Some (column c d))"

definition result_cols :: "error + dataset \<Rightarrow> string list option" where
  "result_cols x = (case x of Inl e \<Rightarrow> None | Inr d \<Rightarrow> Some (cols d))"

section \<open>External collaborators\<close>

text \<open>
  What the job calls but does not define is a parameter of the model: the CSV reader,
  the BigQuery connector, the parser behind a cast from string to double, the order in
  which a fitted StringIndexer lists its labels, the fitted StandardScaler (from
  the vectors seen at fit time to the function applied to each vector), and the double
  that the power and the division return for an exact real result.
\<close>

record env =
  read_csv :: "string \<Rightarrow> error + dataset"
  bq_save :: "string \<Rightarrow> string \<Rightarrow> dataset \<Rightarrow> error option"
  str_to_double :: "string \<Rightarrow> dbl option"
  label_order :: "val list \<Rightarrow> val list"
  scaler_fit :: "dbl list list \<Rightarrow> dbl list \<Rightarrow> dbl list"
  round_pow :: "real \<Rightarrow> dbl"
  round_div :: "real \<Rightarrow> dbl"

section \<open>Module-level configuration (lines 7-14)\<close>

definition GCS_FILE_PATH :: string where
  "GCS_FILE_PATH = ''gs://cardiopredict-bronzedata-12345/heart_2022_no_nans.csv''"

definition BIGQUERY_OUTPUT_TABLE :: string where
  "BIGQUERY_OUTPUT_TABLE = ''cardio-predict-project.heart_analytics_dataset.processed_heart_data''"

definition GCS_STAGING_BUCKET :: string where
  "GCS_STAGING_BUCKET = ''cardiopredict-bronzedata-12345''"

text \<open>
  \<^verbatim>\<open>if len(sys.argv) > 1: GCS_FILE_PATH = sys.argv[1]; print(...)\<close>.
  The result is the source path in force and the lines printed.
\<close>

definition module_level :: "string list \<Rightarrow> string \<times> string list" where
  "module_level argv =
     (if length argv > 1
      then (argv ! 1, [''Using GCS Path from command line: '' @ argv ! 1])
      else (GCS_FILE_PATH, []))"

section \<open>Column expressions\<close>

text \<open>
  \<^verbatim>\<open>cast("double")\<close>: a value that does not convert becomes null.
\<close>

definition cast_double :: "env \<Rightarrow> val \<Rightarrow> val" where
  "cast_double en v =
     (case v of
        Null \<Rightarrow> Null
      | S s \<Rightarrow> (case str_to_double en s of None \<Rightarrow> Null | Some x \<Rightarrow> D x)
      | I n \<Rightarrow> D (Fin (of_int n))
      | D x \<Rightarrow> D x
      | B b \<Rightarrow> D (Fin (if b then 1 else 0))
      | V xs \<Rightarrow> Null)"

text \<open>
  \<^verbatim>\<open>x ** 2\<close> on doubles.  Zero squared is zero; the square of any other finite
  number is what the power returns for the exact square.
\<close>

fun dbl_pow2 :: "env \<Rightarrow> dbl \<Rightarrow> dbl" where
  "dbl_pow2 en (Fin x) = (if x = 0 then Fin 0 else round_pow en (x ^ 2))"
| "dbl_pow2 en PInf = PInf"
| "dbl_pow2 en NInf = PInf"
| "dbl_pow2 en NaN = NaN"

text \<open>
  Division of doubles.  The quotient of two finite numbers is what the division
  returns for the exact quotient.  Spark never reaches it with a zero divisor (see
  \<open>col_divide\<close>); the zero-divisor equations follow IEEE with the sign of zero ignored.
\<close>

fun dbl_div :: "env \<Rightarrow> dbl \<Rightarrow> dbl \<Rightarrow> dbl" where
  "dbl_div en NaN y = NaN"
| "dbl_div en x NaN = NaN"
| "dbl_div en (Fin x) (Fin y) =
     (if y = 0 then (if x = 0 then NaN else if 0 < x then PInf else NInf)
      else round_div en (x / y))"
| "dbl_div en (Fin x) PInf = Fin 0"
| "dbl_div en (Fin x) NInf = Fin 0"
| "dbl_div en PInf (Fin y) = (if y < 0 then NInf else PInf)"
| "dbl_div en NInf (Fin y) = (if y < 0 then PInf else NInf)"
| "dbl_div en PInf PInf = NaN"
| "dbl_div en PInf NInf = NaN"
| "dbl_div en NInf PInf = NaN"
| "dbl_div en NInf NInf = NaN"

text \<open>
  The column operators of lines 35-39.  A null operand gives null, and so does a
  zero divisor (Spark SQL outside ANSI mode).  Both operands are doubles or null after
  the casts of lines 31-32.
\<close>

fun col_pow2 :: "env \<Rightarrow> val \<Rightarrow> val" where
  "col_pow2 en (D x) = D (dbl_pow2 en x)"
| "col_pow2 en v = Null"

fun col_divide :: "env \<Rightarrow> val \<Rightarrow> val \<Rightarrow> val" where
  "col_divide en (D x) (D y) = (if y = Fin 0 then Null else D (dbl_div en x y))"
| "col_divide en v w = Null"

definition isNotNull :: "val \<Rightarrow> bool" where
  "isNotNull v = (v \<noteq> Null)"

definition isnan :: "val \<Rightarrow> bool" where
  "isnan v = (v = D NaN)"

text \<open>
  \<^verbatim>\<open>col == "Yes"\<close>.  Against a string column the comparison is of strings, exact
  in case.  Against a boolean column Spark casts the literal to a boolean (it reads
  t, true, y, yes, 1 as true and f, false, n, no, 0 as false, in any case; trimming
  of blanks is not modelled).  Against a number the literal converts to null.  A null
  operand gives null.  \<^verbatim>\<open>when(c, 1).otherwise(0)\<close> takes the first branch only when
  the condition is true.
\<close>

definition lower_char :: "char \<Rightarrow> char" where
  "lower_char c =
     (case map_of (zip ''ABCDEFGHIJKLMNOPQRSTUVWXYZ'' ''abcdefghijklmnopqrstuvwxyz'') c of
        None \<Rightarrow> c
      | Some l \<Rightarrow> l)"

definition string_to_boolean :: "string \<Rightarrow> bool option" where
  "string_to_boolean s =
     (let t = map lower_char s in
      if t \<in> set [''t'', ''true'', ''y'', ''yes'', ''1''] then Some True
      else if t \<in> set [''f'', ''false'', ''n'', ''no'', ''0''] then Some False
      else None)"

definition col_eq_lit :: "val \<Rightarrow> string \<Rightarrow> bool option" where
  "col_eq_lit v s =
     (case v of
        S t \<Rightarrow> Some (t = s)
      | B b \<Rightarrow> (case string_to_boolean s of None \<Rightarrow> None | Some c \<Rightarrow> Some (b = c))
      | _ \<Rightarrow> None)"

definition when_otherwise :: "bool option \<Rightarrow> val \<Rightarrow> val \<Rightarrow> val" where
  "when_otherwise c a b = (if c = Some True then a else b)"

section \<open>DataFrame operations\<close>

text \<open>A reference to a column that the schema does not have raises.\<close>

definition resolve :: "string list \<Rightarrow> dataset \<Rightarrow> error option" where
  "resolve cs d =
     (case filter (\<lambda>c. c \<notin> set (cols d)) cs of
        [] \<Rightarrow> None
      | c # rest \<Rightarrow> Some (AnalysisException c))"

text \<open>
  \<^verbatim>\<open>withColumn\<close> replaces a column of that name in place, or appends a new one;
  \<open>refs\<close> are the columns its expression reads.
\<close>

definition withColumn :: "string \<Rightarrow> string list \<Rightarrow> (row \<Rightarrow> val) \<Rightarrow> dataset \<Rightarrow> error + dataset" where
  "withColumn c refs f d =
     (case resolve refs d of
        Some e \<Rightarrow> Inl e
      | None \<Rightarrow>
          Inr \<lparr>cols = (if c \<in> set (cols d) then cols d else cols d @ [c]),
               rows = map (\<lambda>r. r(c := f r)) (rows d)\<rparr>)"

definition filter_rows :: "string list \<Rightarrow> (row \<Rightarrow> bool) \<Rightarrow> dataset \<Rightarrow> error + dataset" where
  "filter_rows refs p d =
     (case resolve refs d of
        Some e \<Rightarrow> Inl e
      | None \<Rightarrow> Inr \<lparr>cols = cols d, rows = filter p (rows d)\<rparr>)"

text \<open>\<^verbatim>\<open>drop\<close> ignores names the schema does not have.\<close>

definition drop_cols :: "string list \<Rightarrow> dataset \<Rightarrow> dataset" where
  "drop_cols cs d =
     \<lparr>cols = filter (\<lambda>c. c \<notin> set cs) (cols d),
      rows = map (\<lambda>r c. if c \<in> set cs then Null else r c) (rows d)\<rparr>"

definition select_cols :: "string list \<Rightarrow> dataset \<Rightarrow> error + dataset" where
  "select_cols cs d =
     (case resolve cs d of
        Some e \<Rightarrow> Inl e
      | None \<Rightarrow>
          Inr \<lparr>cols = cs, rows = map (\<lambda>r c. if c \<in> set cs then r c else Null) (rows d)\<rparr>)"

section \<open>Section 2 of \<open>main\<close>: cleaning and feature engineering (lines 27-55)\<close>

text \<open>Lines 31-32: both measurement columns are cast to double.\<close>

definition schema_normalizer :: "env \<Rightarrow> dataset \<Rightarrow> error + dataset" where
  "schema_normalizer en df =
     and_then
       (withColumn ''WeightInKilograms'' [''WeightInKilograms'']
          (\<lambda>r. cast_double en (r ''WeightInKilograms'')) df)
       (withColumn ''HeightInMeters'' [''HeightInMeters'']
          (\<lambda>r. cast_double en (r ''HeightInMeters'')))"

text \<open>Lines 35-36: the derived column, then the filter on it.\<close>

definition bmi :: "env \<Rightarrow> row \<Rightarrow> val" where
  "bmi en r = col_divide en (r ''WeightInKilograms'') (col_pow2 en (r ''HeightInMeters''))"

definition feature_deriver :: "env \<Rightarrow> dataset \<Rightarrow> error + dataset" where
  "feature_deriver en df =
     and_then
       (withColumn ''BMI_Calculated'' [''WeightInKilograms'', ''HeightInMeters''] (bmi en) df)
       (filter_rows [''BMI_Calculated'']
          (\<lambda>r. isNotNull (r ''BMI_Calculated'') \<and> \<not> isnan (r ''BMI_Calculated'')))"

text \<open>Line 39: the numeric label.\<close>

definition label_value :: "val \<Rightarrow> val" where
  "label_value v = when_otherwise (col_eq_lit v ''Yes'') (I 1) (I 0)"

definition label_encoder :: "dataset \<Rightarrow> error + dataset" where
  "label_encoder df =
     withColumn ''HadHeartAttack_Numeric'' [''HadHeartAttack'']
       (\<lambda>r. label_value (r ''HadHeartAttack'')) df"

text \<open>Lines 42-52: the column lists.\<close>

definition categorical_cols :: "string list" where
  "categorical_cols =
     [''Sex'', ''GeneralHealth'', ''LastCheckupTime'', ''PhysicalActivities'', ''RemovedTeeth'',
      ''HadAngina'', ''HadStroke'', ''HadAsthma'', ''HadSkinCancer'', ''HadCOPD'',
      ''HadDepressiveDisorder'', ''HadKidneyDisease'', ''HadArthritis'', ''HadDiabetes'',
      ''DeafOrHardOfHearing'', ''BlindOrVisionDifficulty'', ''DifficultyConcentrating'',
      ''DifficultyWalking'', ''DifficultyDressingBathing'', ''DifficultyErrands'',
      ''SmokerStatus'', ''ECigaretteUsage'', ''ChestScan'', ''RaceEthnicityCategory'',
      ''AgeCategory'', ''AlcoholDrinkers'', ''HIVTesting'', ''FluVaxLast12'',
      ''PneumoVaxEver'', ''TetanusLast10Tdap'', ''HighRiskLastYear'', ''CovidPos'']"

definition numerical_cols :: "string list" where
  "numerical_cols = [''PhysicalHealthDays'', ''MentalHealthDays'', ''SleepHours'', ''BMI_Calculated'']"

text \<open>Line 55, and the whole \<^verbatim>\<open>try\<close> block from the read on.\<close>

definition dropped_cols :: "string list" where
  "dropped_cols = [''State'', ''HeightInMeters'', ''WeightInKilograms'', ''BMI'', ''HadHeartAttack'']"

definition clean :: "env \<Rightarrow> string \<Rightarrow> error + dataset" where
  "clean en path =
     and_then (read_csv en path) (\<lambda>df.
     and_then (schema_normalizer en df) (\<lambda>df.
     and_then (feature_deriver en df) (\<lambda>df.
     and_then (label_encoder df) (\<lambda>df.
     Inr (drop_cols dropped_cols df)))))"

section \<open>Section 3 of \<open>main\<close>: the ML pipeline (lines 62-74)\<close>

text \<open>
  The three kinds of stage the job builds, each with the parameters the source passes
  (\<^verbatim>\<open>handleInvalid="skip"\<close> for the indexer and the assembler, \<^verbatim>\<open>withStd=True,
  withMean=False\<close> for the scaler), and what each becomes once fitted.
\<close>

datatype stage =
    StringIndexer string string
  | VectorAssembler "string list" string
  | StandardScaler string string

datatype fitted =
    StringIndexerModel string string "val list"
  | Assembler "string list" string
  | StandardScalerModel string string "dbl list \<Rightarrow> dbl list"

fun is_estimator :: "stage \<Rightarrow> bool" where
  "is_estimator (StringIndexer i out) = True"
| "is_estimator (VectorAssembler ins out) = False"
| "is_estimator (StandardScaler i out) = True"

fun index_of :: "'a list \<Rightarrow> 'a \<Rightarrow> nat" where
  "index_of [] v = 0"
| "index_of (x # xs) v = (if x = v then 0 else Suc (index_of xs v))"

text \<open>
  What the assembler accepts.  A numerical column holds numbers, booleans or nulls
  (its inferred type); column types are not modelled, and any other value counts as
  invalid here.
\<close>

definition valid_num :: "val \<Rightarrow> bool" where
  "valid_num v = (case v of I n \<Rightarrow> True | D x \<Rightarrow> x \<noteq> NaN | B b \<Rightarrow> True | _ \<Rightarrow> False)"

definition to_dbl :: "val \<Rightarrow> dbl" where
  "to_dbl v =
     (case v of
        I n \<Rightarrow> Fin (of_int n)
      | D x \<Rightarrow> x
      | B b \<Rightarrow> Fin (if b then 1 else 0)
      | _ \<Rightarrow> NaN)"

definition vectors :: "val list \<Rightarrow> dbl list list" where
  "vectors vs = concat (map (\<lambda>v. case v of V xs \<Rightarrow> [xs] | _ \<Rightarrow> []) vs)"

text \<open>
  Fitting a stage.  An indexer reads the non-null values of its input column and
  leaves their order to the collaborator; the assembler has nothing to fit.
\<close>

fun fit_stage :: "env \<Rightarrow> stage \<Rightarrow> dataset \<Rightarrow> error + fitted" where
  "fit_stage en (StringIndexer i out) d =
     (if i \<notin> set (cols d) then Inl (IllegalArgumentException i)
      else Inr (StringIndexerModel i out (label_order en (filter (\<lambda>v. v \<noteq> Null) (column i d)))))"
| "fit_stage en (VectorAssembler ins out) d = Inr (Assembler ins out)"
| "fit_stage en (StandardScaler i out) d =
     (if i \<notin> set (cols d) then Inl (IllegalArgumentException i)
      else Inr (StandardScalerModel i out (scaler_fit en (vectors (column i d)))))"

text \<open>
  Applying a fitted stage.  Every stage needs its input columns and refuses an output
  column that exists already.  With \<^verbatim>\<open>handleInvalid="skip"\<close> the indexer drops a row
  whose value is null or not among the labels, and the assembler drops a row with a
  null or NaN component.
\<close>

definition stage_check :: "string list \<Rightarrow> string \<Rightarrow> dataset \<Rightarrow> error option" where
  "stage_check ins out d =
     (case filter (\<lambda>c. c \<notin> set (cols d)) ins of
        c # rest \<Rightarrow> Some (IllegalArgumentException c)
      | [] \<Rightarrow> (if out \<in> set (cols d) then Some (IllegalArgumentException out) else None))"

definition add_column :: "string \<Rightarrow> (row \<Rightarrow> val) \<Rightarrow> (row \<Rightarrow> bool) \<Rightarrow> dataset \<Rightarrow> dataset" where
  "add_column out f keep d =
     \<lparr>cols = cols d @ [out], rows = map (\<lambda>r. r(out := f r)) (filter keep (rows d))\<rparr>"

fun transform_stage :: "fitted \<Rightarrow> dataset \<Rightarrow> error + dataset" where
  "transform_stage (StringIndexerModel i out labels) d =
     (case stage_check [i] out d of
        Some e \<Rightarrow> Inl e
      | None \<Rightarrow>
          Inr (add_column out (\<lambda>r. D (Fin (real (index_of labels (r i)))))
                 (\<lambda>r. r i \<noteq> Null \<and> r i \<in> set labels) d))"
| "transform_stage (Assembler ins out) d =
     (case stage_check ins out d of
        Some e \<Rightarrow> Inl e
      | None \<Rightarrow>
          Inr (add_column out (\<lambda>r. V (map (\<lambda>c. to_dbl (r c)) ins))
                 (\<lambda>r. list_all (\<lambda>c. valid_num (r c)) ins) d))"
| "transform_stage (StandardScalerModel i out f) d =
     (case stage_check [i] out d of
        Some e \<Rightarrow> Inl e
      | None \<Rightarrow>
          Inr (add_column out (\<lambda>r. case r i of V xs \<Rightarrow> V (f xs) | _ \<Rightarrow> Null)
                 (\<lambda>r. True) d))"

text \<open>
  \<^verbatim>\<open>Pipeline.fit\<close>: each stage is fitted on the data as transformed by the stages
  before it; the data is transformed further only while an estimator is still to come.
  \<^verbatim>\<open>PipelineModel.transform\<close>: the fitted stages in order.
\<close>

fun pipeline_fit :: "env \<Rightarrow> stage list \<Rightarrow> dataset \<Rightarrow> error + fitted list" where
  "pipeline_fit en [] d = Inr []"
| "pipeline_fit en (s # ss) d =
     and_then (fit_stage en s d) (\<lambda>m.
       if list_ex is_estimator ss
       then and_then (transform_stage m d) (\<lambda>d'.
            and_then (pipeline_fit en ss d') (\<lambda>ms. Inr (m # ms)))
       else and_then (pipeline_fit en ss d) (\<lambda>ms. Inr (m # ms)))"

fun pipeline_transform :: "fitted list \<Rightarrow> dataset \<Rightarrow> error + dataset" where
  "pipeline_transform [] d = Inr d"
| "pipeline_transform (m # ms) d = and_then (transform_stage m d) (pipeline_transform ms)"

text \<open>Lines 64-72 and 78: the stages and the output columns.\<close>

definition indexers :: "stage list" where
  "indexers = map (\<lambda>c. StringIndexer c (c @ ''_indexed'')) categorical_cols"

definition indexed_cols :: "string list" where
  "indexed_cols = map (\<lambda>c. c @ ''_indexed'') categorical_cols"

definition num_assembler :: stage where
  "num_assembler = VectorAssembler numerical_cols ''num_features_unscaled''"

definition num_scaler :: stage where
  "num_scaler = StandardScaler ''num_features_unscaled'' ''num_features_scaled''"

definition transform_pipeline :: "stage list" where
  "transform_pipeline = indexers @ [num_assembler, num_scaler]"

definition final_bq_cols :: "string list" where
  "final_bq_cols = [''HadHeartAttack_Numeric''] @ indexed_cols @ numerical_cols"

text \<open>Lines 73-79: fit, transform, select.  The result is \<^verbatim>\<open>final_df_bq\<close>.\<close>

definition final_df_bq :: "env \<Rightarrow> dataset \<Rightarrow> error + dataset" where
  "final_df_bq en df =
     and_then (pipeline_fit en transform_pipeline df) (\<lambda>model.
     and_then (pipeline_transform model df) (\<lambda>processed_df.
     select_cols final_bq_cols processed_df))"

section \<open>\<open>main\<close> and the whole program\<close>

text \<open>
  A run ends by returning or by an exception that leaves \<open>main\<close>.  It is observed by
  the lines printed, by whether \<^verbatim>\<open>spark.stop()\<close> was reached, and by the table the
  connector was given and accepted.
\<close>

datatype outcome = Returned | Raised error

record run =
  stdout :: "string list"
  stopped :: bool
  saved :: "dataset option"
  outcome :: outcome

definition init_message :: string where
  "init_message =
     ''Spark Session Initialized. Preparing data lifecycle transition (Bronze -> Silver)...''"

definition success_message :: string where
  "success_message =
     [CHR 0x0A, CHR 0xE2, CHR 0x9C, CHR 0x85]
       @ '' Successfully wrote Silver Layer data to BigQuery!''"

text \<open>
  The first \<^verbatim>\<open>try\<close> covers lines 28-55, the second the write of lines 82-87.  Lines
  62-79 stand in neither.
\<close>

definition main :: "env \<Rightarrow> string \<Rightarrow> run" where
  "main en path =
     (case clean en path of
        Inl e \<Rightarrow>
          \<lparr>stdout = [init_message, ''ERROR during processing: '' @ describe e],
           stopped = True, saved = None, outcome = Returned\<rparr>
      | Inr df \<Rightarrow>
          (case final_df_bq en df of
             Inl e \<Rightarrow>
               \<lparr>stdout = [init_message], stopped = False, saved = None, outcome = Raised e\<rparr>
           | Inr out \<Rightarrow>
               (case bq_save en BIGQUERY_OUTPUT_TABLE GCS_STAGING_BUCKET out of
                  Some e \<Rightarrow>
                    \<lparr>stdout = [init_message,
                               ''ERROR: Could not write to BigQuery: '' @ describe e],
                     stopped = True, saved = None, outcome = Returned\<rparr>
                | None \<Rightarrow>
                    \<lparr>stdout = [init_message, success_message],
                     stopped = True, saved = Some out, outcome = Returned\<rparr>)))"

definition program :: "env \<Rightarrow> string list \<Rightarrow> run" where
  "program en argv =
     (case module_level argv of
        (path, printed) \<Rightarrow> (let r = main en path in r\<lparr>stdout := printed @ stdout r\<rparr>))"

section \<open>The schema side of the pipeline\<close>

text \<open>
  The columns a stage reads and the column it adds, and what a run of stages does to
  the schema alone: \<open>schema_after\<close> follows \<^verbatim>\<open>PipelineModel.transform\<close> and
  \<open>fit_schema\<close> follows \<^verbatim>\<open>Pipeline.fit\<close>.  They are used to show when the pipeline
  goes through.
\<close>

fun fitted_ins :: "fitted \<Rightarrow> string list" where
  "fitted_ins (StringIndexerModel i out labels) = [i]"
| "fitted_ins (Assembler ins out) = ins"
| "fitted_ins (StandardScalerModel i out f) = [i]"

fun fitted_out :: "fitted \<Rightarrow> string" where
  "fitted_out (StringIndexerModel i out labels) = out"
| "fitted_out (Assembler ins out) = out"
| "fitted_out (StandardScalerModel i out f) = out"

fun stage_ins :: "stage \<Rightarrow> string list" where
  "stage_ins (StringIndexer i out) = [i]"
| "stage_ins (VectorAssembler ins out) = ins"
| "stage_ins (StandardScaler i out) = [i]"

fun stage_out :: "stage \<Rightarrow> string" where
  "stage_out (StringIndexer i out) = out"
| "stage_out (VectorAssembler ins out) = out"
| "stage_out (StandardScaler i out) = out"

fun fit_ins :: "stage \<Rightarrow> string list" where
  "fit_ins (StringIndexer i out) = [i]"
| "fit_ins (VectorAssembler ins out) = []"
| "fit_ins (StandardScaler i out) = [i]"

fun schema_after :: "string list \<Rightarrow> (string list \<times> string) list \<Rightarrow> string list option" where
  "schema_after cs [] = Some cs"
| "schema_after cs ((ins, out) # ms) =
     (if set ins \<subseteq> set cs \<and> out \<notin> set cs then schema_after (cs @ [out]) ms else None)"

fun fit_schema :: "string list \<Rightarrow> stage list \<Rightarrow> bool" where
  "fit_schema cs [] = True"
| "fit_schema cs (s # ss) =
     (set (fit_ins s) \<subseteq> set cs \<and>
      (if list_ex is_estimator ss
       then set (stage_ins s) \<subseteq> set cs \<and> stage_out s \<notin> set cs \<and> fit_schema (cs @ [stage_out s]) ss
       else fit_schema cs ss))"

text \<open>When the schema lets lines 73-79 go through.\<close>

definition pipeline_ready :: "string list \<Rightarrow> bool" where
  "pipeline_ready cs \<longleftrightarrow>
     set categorical_cols \<subseteq> set cs \<and> set numerical_cols \<subseteq> set cs
     \<and> ''HadHeartAttack_Numeric'' \<in> set cs
     \<and> set indexed_cols \<inter> set cs = {}
     \<and> ''num_features_unscaled'' \<notin> set cs \<and> ''num_features_scaled'' \<notin> set cs"

section \<open>Sample inputs\<close>

text \<open>
  Concrete inputs on which the results below are run.  \<open>in_range\<close> is a sample
  double arithmetic: exact within the range of a double, zero below it, an infinity
  above it.  \<open>no_env\<close> has a reader that fails, a connector that accepts, no string
  that parses as a double, labels in first-seen order, a scaler that changes nothing
  and that arithmetic.
\<close>

definition in_range :: "real \<Rightarrow> dbl" where
  "in_range x =
     (if \<bar>x\<bar> < 1 / 2 ^ 1075 then Fin 0
      else if 2 ^ 1024 \<le> x then PInf
      else if x \<le> - (2 ^ 1024) then NInf
      else Fin x)"

definition infinite_weight_df :: dataset where
  "infinite_weight_df =
     \<lparr>cols = [''WeightInKilograms'', ''HeightInMeters''],
      rows = [(\<lambda>c. Null)(''WeightInKilograms'' := D PInf, ''HeightInMeters'' := D (Fin 2))]\<rparr>"

definition measured_df :: dataset where
  "measured_df =
     \<lparr>cols = [''WeightInKilograms'', ''HeightInMeters''],
      rows = [(\<lambda>c. Null)(''WeightInKilograms'' := I 80, ''HeightInMeters'' := D (Fin 2)),
              (\<lambda>c. Null)(''WeightInKilograms'' := D (Fin 70), ''HeightInMeters'' := D (Fin 0)),
              (\<lambda>c. Null)(''WeightInKilograms'' := D (Fin 70)),
              (\<lambda>c. Null)(''WeightInKilograms'' := D NaN, ''HeightInMeters'' := D (Fin 2)),
              (\<lambda>c. Null)(''WeightInKilograms'' := D NInf, ''HeightInMeters'' := D (Fin 1)),
              (\<lambda>c. Null)(''WeightInKilograms'' := D (Fin 70), ''HeightInMeters'' := D (Fin (1 / 10 ^ 200))),
              (\<lambda>c. Null)(''WeightInKilograms'' := D (Fin (10 ^ 200)), ''HeightInMeters'' := D (Fin (1 / 10 ^ 100))),
              (\<lambda>c. Null)(''WeightInKilograms'' := D PInf, ''HeightInMeters'' := D (Fin (10 ^ 200)))]\<rparr>"

definition no_env :: env where
  "no_env =
     \<lparr>read_csv = (\<lambda>p. Inl (ReadFailure p)),
      bq_save = (\<lambda>t b d. None),
      str_to_double = (\<lambda>s. None),
      label_order = remdups,
      scaler_fit = (\<lambda>vs v. v),
      round_pow = in_range,
      round_div = in_range\<rparr>"

text \<open>The header of a survey file: the columns the job reads, and two it drops.\<close>

definition raw_cols :: "string list" where
  "raw_cols =
     [''State''] @ categorical_cols
       @ [''PhysicalHealthDays'', ''MentalHealthDays'', ''SleepHours'', ''HadHeartAttack'',
          ''HeightInMeters'', ''WeightInKilograms'', ''BMI'']"

text \<open>
  A survey of three patients, every categorical answer "No" except as given: one
  complete record, one with no height, one with no sex and no outcome.
  \<open>survey_env\<close> reads it whatever the path and has a connector that accepts.
\<close>

definition patient :: "val \<Rightarrow> val \<Rightarrow> val \<Rightarrow> val \<Rightarrow> row" where
  "patient heart sex weight height =
     (\<lambda>c. if c \<in> set categorical_cols then S ''No''
          else if c \<in> {''PhysicalHealthDays'', ''MentalHealthDays'', ''SleepHours''} then D (Fin 7)
          else Null)
      (''State'' := S ''Ohio'', ''Sex'' := sex, ''HadHeartAttack'' := heart,
       ''WeightInKilograms'' := weight, ''HeightInMeters'' := height, ''BMI'' := D (Fin 25))"

definition survey_df :: dataset where
  "survey_df =
     \<lparr>cols = raw_cols,
      rows = [patient (S ''Yes'') (S ''Female'') (D (Fin 80)) (D (Fin 2)),
              patient (S ''No'') (S ''Male'') (D (Fin 70)) Null,
              patient Null Null (D (Fin 60)) (D (Fin 1))]\<rparr>"

definition survey_env :: env where
  "survey_env =
     \<lparr>read_csv = (\<lambda>p. Inr survey_df),
      bq_save = (\<lambda>t b d. None),
      str_to_double = (\<lambda>s. None),
      label_order = remdups,
      scaler_fit = (\<lambda>vs v. v),
      round_pow = in_range,
      round_div = in_range\<rparr>"

text \<open>
  Eight patients who differ in the raw outcome only, as the dataset stands before line
  39, and a file whose outcome column was read as boolean.
\<close>

definition answers_df :: dataset where
  "answers_df =
     \<lparr>cols = categorical_cols
              @ [''PhysicalHealthDays'', ''MentalHealthDays'', ''SleepHours'', ''BMI_Calculated'',
                 ''HadHeartAttack''],
      rows = map (\<lambda>heart. (patient heart (S ''Male'') Null Null)(''BMI_Calculated'' := D (Fin 25)))
               [S ''Yes'', S ''No'', Null, S '''', S ''yes'', S ''YES'', B True, B False]\<rparr>"

definition truth_df :: dataset where
  "truth_df =
     \<lparr>cols = [''HadHeartAttack''],
      rows = [(\<lambda>c. Null)(''HadHeartAttack'' := B True),
              (\<lambda>c. Null)(''HadHeartAttack'' := B False)]\<rparr>"

text \<open>Fitted vocabularies that know two sexes and the answers "Yes" and "No".\<close>

definition known_vocabulary :: "string \<Rightarrow> val list" where
  "known_vocabulary c = (if c = ''Sex'' then [S ''Female'', S ''Intersex''] else [S ''Yes'', S ''No''])"

text \<open>A file with one complete measurement and outcome, whose header has no categorical column.\<close>

definition sexless_df :: dataset where
  "sexless_df =
     \<lparr>cols = [''HadHeartAttack'', ''HeightInMeters'', ''WeightInKilograms''],
      rows = [(\<lambda>c. Null)(''HadHeartAttack'' := S ''No'', ''HeightInMeters'' := D (Fin 2),
                           ''WeightInKilograms'' := D (Fin 80))]\<rparr>"

definition sexless_env :: env where
  "sexless_env =
     \<lparr>read_csv = (\<lambda>p. Inr sexless_df),
      bq_save = (\<lambda>t b d. None),
      str_to_double = (\<lambda>s. None),
      label_order = remdups,
      scaler_fit = (\<lambda>vs v. v),
      round_pow = in_range,
      round_div = in_range\<rparr>"

section \<open>Basic facts\<close>

lemma and_then_Inl: "and_then (Inl e) f = Inl e"
  by (simp add: and_then_def)

lemma and_then_Inr: "and_then (Inr a) f = f a"
  by (simp add: and_then_def)

lemma and_then_eq_Inr:
  "and_then x f = Inr b \<longleftrightarrow> (\<exists>a. x = Inr a \<and> f a = Inr b)"
  by (cases x) (simp_all add: and_then_def)

lemma resolve_None: "resolve cs d = None \<longleftrightarrow> set cs \<subseteq> set (cols d)"
proof (cases "filter (\<lambda>c. c \<notin> set (cols d)) cs")
  case Nil
  then show ?thesis
    by (auto simp: resolve_def filter_empty_conv)
next
  case (Cons c rest)
  have "c \<in> set (filter (\<lambda>c. c \<notin> set (cols d)) cs)"
    unfolding Cons by simp
  then have missing: "c \<in> set cs \<and> c \<notin> set (cols d)"
    by simp
  have "resolve cs d = Some (AnalysisException c)"
    by (simp add: resolve_def Cons)
  then show ?thesis
    using missing by auto
qed

section \<open>Stages and schemas\<close>

lemma stage_check_None:
  "stage_check ins out d = None \<longleftrightarrow> set ins \<subseteq> set (cols d) \<and> out \<notin> set (cols d)"
proof (cases "filter (\<lambda>c. c \<notin> set (cols d)) ins")
  case Nil
  then show ?thesis
    by (auto simp: stage_check_def filter_empty_conv)
next
  case (Cons c rest)
  have "c \<in> set (filter (\<lambda>c. c \<notin> set (cols d)) ins)"
    unfolding Cons by simp
  then have missing: "c \<in> set ins \<and> c \<notin> set (cols d)"
    by simp
  have "stage_check ins out d = Some (IllegalArgumentException c)"
    by (simp add: stage_check_def Cons)
  then show ?thesis
    using missing by auto
qed

lemma transform_stage_Inr:
  assumes "transform_stage m d = Inr d'"
  shows "set (fitted_ins m) \<subseteq> set (cols d) \<and> fitted_out m \<notin> set (cols d)
         \<and> cols d' = cols d @ [fitted_out m]"
proof (cases m)
  case (StringIndexerModel i out labels)
  with assms show ?thesis
    by (auto simp: add_column_def stage_check_None split: option.splits)
next
  case (Assembler ins out)
  with assms show ?thesis
    by (auto simp: add_column_def stage_check_None split: option.splits)
next
  case (StandardScalerModel i out f)
  with assms show ?thesis
    by (auto simp: add_column_def stage_check_None split: option.splits)
qed

lemma transform_stage_succeeds:
  assumes "set (fitted_ins m) \<subseteq> set (cols d)" and "fitted_out m \<notin> set (cols d)"
  shows "\<exists>d'. transform_stage m d = Inr d'"
proof -
  have "stage_check (fitted_ins m) (fitted_out m) d = None"
    using assms by (simp add: stage_check_None)
  then show ?thesis
    by (cases m) simp_all
qed

lemma transform_stage_rows:
  assumes "transform_stage m d = Inr d'" and "r' \<in> set (rows d')"
  shows "\<exists>r\<in>set (rows d). \<forall>x. x \<noteq> fitted_out m \<longrightarrow> r' x = r x"
proof (cases m)
  case (StringIndexerModel i out labels)
  with assms show ?thesis
    by (fastforce simp: add_column_def split: option.splits)
next
  case (Assembler ins out)
  with assms show ?thesis
    by (fastforce simp: add_column_def split: option.splits)
next
  case (StandardScalerModel i out f)
  with assms show ?thesis
    by (fastforce simp: add_column_def split: option.splits)
qed

lemma pipeline_transform_cols:
  "result_cols (pipeline_transform ms d) = schema_after (cols d) (map (\<lambda>m. (fitted_ins m, fitted_out m)) ms)"
proof (induction ms arbitrary: d)
  case Nil
  show ?case by (simp add: result_cols_def)
next
  case (Cons m ms)
  show ?case
  proof (cases "transform_stage m d")
    case (Inl e)
    then have "\<not> (set (fitted_ins m) \<subseteq> set (cols d) \<and> fitted_out m \<notin> set (cols d))"
      using transform_stage_succeeds [of m d] by auto
    then show ?thesis
      using Inl by (auto simp: and_then_Inl result_cols_def)
  next
    case (Inr d1)
    from transform_stage_Inr [OF Inr] Cons.IH [of d1] show ?thesis
      using Inr by (simp add: and_then_Inr)
  qed
qed

lemma pipeline_transform_rows:
  assumes "pipeline_transform ms d = Inr d'" and "r' \<in> set (rows d')"
  shows "\<exists>r\<in>set (rows d). \<forall>x. x \<notin> fitted_out ` set ms \<longrightarrow> r' x = r x"
  using assms
proof (induction ms arbitrary: d)
  case Nil
  then show ?case by auto
next
  case (Cons m ms)
  from Cons.prems(1) obtain d1 where d1: "transform_stage m d = Inr d1"
    and rest: "pipeline_transform ms d1 = Inr d'"
    by (auto simp: and_then_eq_Inr)
  from Cons.IH [OF rest Cons.prems(2)] obtain r1 where r1: "r1 \<in> set (rows d1)"
    and eq1: "\<forall>x. x \<notin> fitted_out ` set ms \<longrightarrow> r' x = r1 x"
    by blast
  from transform_stage_rows [OF d1 r1] obtain r where r: "r \<in> set (rows d)"
    and eq: "\<forall>x. x \<noteq> fitted_out m \<longrightarrow> r1 x = r x"
    by blast
  from eq1 eq have "\<forall>x. x \<notin> fitted_out ` set (m # ms) \<longrightarrow> r' x = r x"
    by simp
  with r show ?case by blast
qed

lemma fit_stage_succeeds:
  assumes "set (fit_ins s) \<subseteq> set (cols d)"
  shows "\<exists>m. fit_stage en s d = Inr m"
  using assms by (cases s) simp_all

lemma fit_stage_Inr:
  assumes "fit_stage en s d = Inr m"
  shows "fitted_ins m = stage_ins s \<and> fitted_out m = stage_out s"
  using assms by (cases s) (auto split: if_splits)

lemma pipeline_fit_succeeds:
  "fit_schema (cols d) ss \<Longrightarrow> \<exists>ms. pipeline_fit en ss d = Inr ms"
proof (induction ss arbitrary: d)
  case Nil
  show ?case by simp
next
  case (Cons s ss)
  from Cons.prems have "set (fit_ins s) \<subseteq> set (cols d)"
    by simp
  from fit_stage_succeeds [OF this] obtain m where m: "fit_stage en s d = Inr m"
    by blast
  note sig = fit_stage_Inr [OF m]
  show ?case
  proof (cases "list_ex is_estimator ss")
    case True
    with Cons.prems sig have "set (fitted_ins m) \<subseteq> set (cols d)" and "fitted_out m \<notin> set (cols d)"
      and later: "fit_schema (cols d @ [stage_out s]) ss"
      by simp_all
    from transform_stage_succeeds [OF this(1,2)] obtain d1 where d1: "transform_stage m d = Inr d1"
      by blast
    from transform_stage_Inr [OF d1] sig have "cols d1 = cols d @ [stage_out s]"
      by simp
    with later Cons.IH [of d1] obtain ms where "pipeline_fit en ss d1 = Inr ms"
      by auto
    with m d1 True show ?thesis
      by (simp add: and_then_Inr)
  next
    case False
    with Cons.prems Cons.IH [of d] obtain ms where "pipeline_fit en ss d = Inr ms"
      by auto
    with m False show ?thesis
      by (simp add: and_then_Inr)
  qed
qed

lemma pipeline_fit_shape:
  "pipeline_fit en ss d = Inr ms \<Longrightarrow>
     map (\<lambda>m. (fitted_ins m, fitted_out m)) ms = map (\<lambda>s. (stage_ins s, stage_out s)) ss"
proof (induction ss arbitrary: d ms)
  case Nil
  then show ?case by simp
next
  case (Cons s ss)
  from Cons.prems obtain m where m: "fit_stage en s d = Inr m"
    by (auto simp: and_then_eq_Inr)
  note sig = fit_stage_Inr [OF m]
  show ?case
  proof (cases "list_ex is_estimator ss")
    case True
    with Cons.prems m obtain d1 ms' where "pipeline_fit en ss d1 = Inr ms'" and "ms = m # ms'"
      by (auto simp: and_then_Inr and_then_eq_Inr)
    with Cons.IH [of d1 ms'] sig show ?thesis
      by simp
  next
    case False
    with Cons.prems m obtain ms' where "pipeline_fit en ss d = Inr ms'" and "ms = m # ms'"
      by (auto simp: and_then_Inr and_then_eq_Inr)
    with Cons.IH [of d ms'] sig show ?thesis
      by simp
  qed
qed

section \<open>Column names and the pipeline schema\<close>

lemma distinct_categorical_cols: "distinct categorical_cols"
  by (simp add: categorical_cols_def)

lemma indexed_not_categorical: "set indexed_cols \<inter> set categorical_cols = {}"
  by (simp add: indexed_cols_def categorical_cols_def)

lemma distinct_indexed_cols: "distinct indexed_cols"
  unfolding indexed_cols_def
  by (simp add: distinct_map distinct_categorical_cols inj_on_def)

lemma kept_not_indexed:
  "''HadHeartAttack_Numeric'' \<notin> set indexed_cols \<and> set numerical_cols \<inter> set indexed_cols = {}"
  by (simp add: indexed_cols_def categorical_cols_def numerical_cols_def)

lemma vectors_not_indexed:
  "''num_features_unscaled'' \<notin> set indexed_cols \<and> ''num_features_scaled'' \<notin> set indexed_cols"
  by (simp add: indexed_cols_def categorical_cols_def)

lemma raw_not_indexed:
  "''HadHeartAttack'' \<notin> set indexed_cols \<and> ''HeightInMeters'' \<notin> set indexed_cols
   \<and> ''WeightInKilograms'' \<notin> set indexed_cols"
  by (simp add: indexed_cols_def categorical_cols_def)

lemma kept_not_categorical:
  "''HadHeartAttack_Numeric'' \<notin> set categorical_cols \<and> set numerical_cols \<inter> set categorical_cols = {}"
  by (simp add: categorical_cols_def numerical_cols_def)


lemma indexers_schema_after:
  assumes "set xs \<subseteq> set cs" and "distinct (map f xs)" and "f ` set xs \<inter> set cs = {}"
  shows "schema_after cs (map (\<lambda>c. ([c], f c)) xs @ rest) = schema_after (cs @ map f xs) rest"
  using assms
proof (induction xs arbitrary: cs)
  case Nil
  show ?case by simp
next
  case (Cons x xs)
  from Cons.prems have here: "x \<in> set cs" "f x \<notin> set cs"
    by auto
  from Cons.prems have "set xs \<subseteq> set (cs @ [f x])" and "distinct (map f xs)"
    and "f ` set xs \<inter> set (cs @ [f x]) = {}"
    by auto
  from Cons.IH [OF this] here show ?case
    by simp
qed

lemma indexers_fit_schema:
  assumes "set xs \<subseteq> set cs" and "distinct (map f xs)" and "f ` set xs \<inter> set cs = {}"
      and "list_ex is_estimator rest"
  shows "fit_schema cs (map (\<lambda>c. StringIndexer c (f c)) xs @ rest) = fit_schema (cs @ map f xs) rest"
  using assms
proof (induction xs arbitrary: cs)
  case Nil
  show ?case by simp
next
  case (Cons x xs)
  from Cons.prems have here: "x \<in> set cs" "f x \<notin> set cs"
    by auto
  from Cons.prems have "set xs \<subseteq> set (cs @ [f x])" and "distinct (map f xs)"
    and "f ` set xs \<inter> set (cs @ [f x]) = {}"
    by auto
  from Cons.IH [OF this Cons.prems(4)] here Cons.prems(4) show ?case
    by simp
qed

lemma pipeline_signatures:
  "map (\<lambda>s. (stage_ins s, stage_out s)) transform_pipeline =
     map (\<lambda>c. ([c], c @ ''_indexed'')) categorical_cols
       @ [(numerical_cols, ''num_features_unscaled''),
          ([''num_features_unscaled''], ''num_features_scaled'')]"
  by (simp add: transform_pipeline_def indexers_def num_assembler_def num_scaler_def comp_def)

lemma pipeline_outputs:
  "stage_out ` set transform_pipeline =
     set indexed_cols \<union> {''num_features_unscaled'', ''num_features_scaled''}"
proof -
  have "stage_out ` set indexers = set indexed_cols"
    by (simp add: indexers_def indexed_cols_def image_image)
  then show ?thesis
    by (auto simp: transform_pipeline_def num_assembler_def num_scaler_def)
qed

lemma ready_schema_after:
  assumes "pipeline_ready cs"
  shows "schema_after cs (map (\<lambda>s. (stage_ins s, stage_out s)) transform_pipeline) =
           Some (cs @ indexed_cols @ [''num_features_unscaled'', ''num_features_scaled''])"
proof -
  let ?rest = "[(numerical_cols, ''num_features_unscaled''),
                ([''num_features_unscaled''], ''num_features_scaled'')]"
  have "schema_after cs (map (\<lambda>c. ([c], c @ ''_indexed'')) categorical_cols @ ?rest) =
        schema_after (cs @ map (\<lambda>c. c @ ''_indexed'') categorical_cols) ?rest"
  proof (rule indexers_schema_after)
    show "set categorical_cols \<subseteq> set cs"
      using assms by (simp add: pipeline_ready_def)
    show "distinct (map (\<lambda>c. c @ ''_indexed'') categorical_cols)"
      using distinct_indexed_cols by (simp add: indexed_cols_def)
    show "(\<lambda>c. c @ ''_indexed'') ` set categorical_cols \<inter> set cs = {}"
      using assms by (simp add: pipeline_ready_def indexed_cols_def)
  qed
  also have "\<dots> = schema_after (cs @ indexed_cols) ?rest"
    by (simp add: indexed_cols_def)
  also have "\<dots> = Some (cs @ indexed_cols @ [''num_features_unscaled'', ''num_features_scaled''])"
    using assms vectors_not_indexed by (auto simp: pipeline_ready_def)
  finally show ?thesis
    by (simp add: pipeline_signatures)
qed

lemma ready_fit_schema:
  assumes "pipeline_ready cs"
  shows "fit_schema cs transform_pipeline"
proof -
  let ?rest = "[num_assembler, num_scaler]"
  have "fit_schema cs (map (\<lambda>c. StringIndexer c (c @ ''_indexed'')) categorical_cols @ ?rest) =
        fit_schema (cs @ map (\<lambda>c. c @ ''_indexed'') categorical_cols) ?rest"
  proof (rule indexers_fit_schema)
    show "set categorical_cols \<subseteq> set cs"
      using assms by (simp add: pipeline_ready_def)
    show "distinct (map (\<lambda>c. c @ ''_indexed'') categorical_cols)"
      using distinct_indexed_cols by (simp add: indexed_cols_def)
    show "(\<lambda>c. c @ ''_indexed'') ` set categorical_cols \<inter> set cs = {}"
      using assms by (simp add: pipeline_ready_def indexed_cols_def)
    show "list_ex is_estimator ?rest"
      by (simp add: num_scaler_def)
  qed
  also have "\<dots> = fit_schema (cs @ indexed_cols) ?rest"
    by (simp add: indexed_cols_def)
  also have "\<dots>"
    using assms vectors_not_indexed
    by (auto simp: pipeline_ready_def num_assembler_def num_scaler_def)
  finally show ?thesis
    by (simp add: transform_pipeline_def indexers_def)
qed

section \<open>The command line\<close>

text \<open>
  C10.  Only \<^verbatim>\<open>sys.argv[1]\<close> is read.  With the script name, a first argument and any
  further arguments, the source path is the first argument whatever it is (no check is
  made on it), the one line printed names that argument alone, and the run is the run
  on the script name and the first argument only: the further arguments change nothing.
\<close>

theorem cli_first_argument_only:
  "module_level (script # a # extra) = (a, [''Using GCS Path from command line: '' @ a])
   \<and> program en (script # a # extra) = program en [script, a]
   \<and> program en (script # a # extra) =
       (main en a)\<lparr>stdout := (''Using GCS Path from command line: '' @ a) # stdout (main en a)\<rparr>"
  by (simp add: module_level_def program_def Let_def)

theorem cli_first_argument_only_witness:
  "module_level [''job.py'', ''gs://bucket/a.csv'', ''gs://bucket/b.csv'', ''--flag'']
     = (''gs://bucket/a.csv'', [''Using GCS Path from command line: gs://bucket/a.csv''])"
  using cli_first_argument_only [of "''job.py''" "''gs://bucket/a.csv''" "[''gs://bucket/b.csv'', ''--flag'']"]
  by simp

section \<open>DataFrame operations and the casts\<close>

lemma cast_double_cases: "cast_double en v = Null \<or> (\<exists>x. cast_double en v = D x)"
  by (cases v) (auto simp: cast_double_def split: option.splits)

lemma withColumn_Inr:
  "withColumn c refs f d = Inr d' \<longleftrightarrow>
     set refs \<subseteq> set (cols d) \<and>
     d' = \<lparr>cols = (if c \<in> set (cols d) then cols d else cols d @ [c]),
           rows = map (\<lambda>r. r(c := f r)) (rows d)\<rparr>"
proof (cases "resolve refs d")
  case None
  then show ?thesis
    using resolve_None [of refs d] by (auto simp: withColumn_def)
next
  case (Some e)
  then show ?thesis
    using resolve_None [of refs d] by (auto simp: withColumn_def)
qed

lemma filter_rows_Inr:
  "filter_rows refs p d = Inr d' \<longleftrightarrow>
     set refs \<subseteq> set (cols d) \<and> d' = \<lparr>cols = cols d, rows = filter p (rows d)\<rparr>"
proof (cases "resolve refs d")
  case None
  then show ?thesis
    using resolve_None [of refs d] by (auto simp: filter_rows_def)
next
  case (Some e)
  then show ?thesis
    using resolve_None [of refs d] by (auto simp: filter_rows_def)
qed

lemma select_cols_Inr:
  "select_cols cs d = Inr d' \<longleftrightarrow>
     set cs \<subseteq> set (cols d) \<and>
     d' = \<lparr>cols = cs, rows = map (\<lambda>r c. if c \<in> set cs then r c else Null) (rows d)\<rparr>"
proof (cases "resolve cs d")
  case None
  then show ?thesis
    using resolve_None [of cs d] by (auto simp: select_cols_def)
next
  case (Some e)
  then show ?thesis
    using resolve_None [of cs d] by (auto simp: select_cols_def)
qed

lemma schema_normalizer_Inr:
  assumes "schema_normalizer en df0 = Inr df"
  shows "cols df = cols df0"
    and "rows df = map (\<lambda>r. r(''WeightInKilograms'' := cast_double en (r ''WeightInKilograms''),
                               ''HeightInMeters'' := cast_double en (r ''HeightInMeters''))) (rows df0)"
  using assms
  by (auto simp: schema_normalizer_def and_then_eq_Inr withColumn_Inr)

lemma normalized_operands:
  assumes "schema_normalizer en df0 = Inr df" and "r \<in> set (rows df)"
  shows "(r ''WeightInKilograms'' = Null \<or> (\<exists>w. r ''WeightInKilograms'' = D w))
       \<and> (r ''HeightInMeters'' = Null \<or> (\<exists>h. r ''HeightInMeters'' = D h))"
proof -
  from assms obtain r0 where
    "r = r0(''WeightInKilograms'' := cast_double en (r0 ''WeightInKilograms''),
            ''HeightInMeters'' := cast_double en (r0 ''HeightInMeters''))"
    by (auto simp: schema_normalizer_Inr(2))
  then show ?thesis
    using cast_double_cases [of en "r0 ''WeightInKilograms''"]
      cast_double_cases [of en "r0 ''HeightInMeters''"]
    by auto
qed

lemma bmi_of_doubles:
  assumes "r ''WeightInKilograms'' = D w" and "r ''HeightInMeters'' = D h"
  shows "bmi en r = (if dbl_pow2 en h = Fin 0 then Null else D (dbl_div en w (dbl_pow2 en h)))"
  using assms by (simp add: bmi_def)

lemma bmi_null_operand:
  assumes "r ''WeightInKilograms'' = Null \<or> r ''HeightInMeters'' = Null"
  shows "bmi en r = Null"
  using assms by (cases "r ''WeightInKilograms''") (auto simp: bmi_def)

lemma keep_iff:
  assumes "r ''WeightInKilograms'' = Null \<or> (\<exists>w. r ''WeightInKilograms'' = D w)"
      and "r ''HeightInMeters'' = Null \<or> (\<exists>h. r ''HeightInMeters'' = D h)"
  shows "isNotNull (bmi en r) \<and> \<not> isnan (bmi en r) \<longleftrightarrow>
         \<not> (r ''WeightInKilograms'' = Null \<or> r ''HeightInMeters'' = Null
            \<or> col_pow2 en (r ''HeightInMeters'') = D (Fin 0) \<or> bmi en r = D NaN)"
  using assms bmi_null_operand [of r en]
  by (auto simp: isNotNull_def isnan_def bmi_of_doubles)

lemma feature_deriver_Inr:
  assumes "feature_deriver en df = Inr out"
  shows "cols out = (if ''BMI_Calculated'' \<in> set (cols df) then cols df else cols df @ [''BMI_Calculated''])"
    and "rows out = map (\<lambda>r. r(''BMI_Calculated'' := bmi en r))
           (filter (\<lambda>r. isNotNull (bmi en r) \<and> \<not> isnan (bmi en r)) (rows df))"
  using assms
  by (auto simp: feature_deriver_def and_then_eq_Inr withColumn_Inr filter_rows_Inr filter_map comp_def)

section \<open>The Feature Deriver\<close>

text \<open>
  C1, as amended.  On a dataset whose weight and height columns went through the casts
  of lines 31-32, the rows that leave the Feature Deriver are exactly the input rows,
  each with the derived column set to the computed weight / height^2, except those
  whose weight or height is null, whose computed squared height is zero, or whose
  computed quotient is NaN; they are removed, not nulled.  The computed square of a
  finite height \<open>h\<close> is zero for \<open>h = 0\<close> and otherwise what the power returns for
  \<open>h^2\<close>; for finite operands and a non-zero computed square \<open>q\<close> the derived value is
  what the division returns for \<open>w / q\<close>.  A row whose computed quotient is an
  infinity is in the output.
\<close>

theorem feature_deriver_contract:
  assumes norm: "schema_normalizer en df0 = Inr df"
      and der: "feature_deriver en df = Inr out"
  shows "rows out =
           map (\<lambda>r. r(''BMI_Calculated'' := bmi en r))
             (filter (\<lambda>r. \<not> (r ''WeightInKilograms'' = Null \<or> r ''HeightInMeters'' = Null
                             \<or> col_pow2 en (r ''HeightInMeters'') = D (Fin 0)
                             \<or> bmi en r = D NaN)) (rows df))
         \<and> (\<forall>r\<in>set (rows df). \<forall>h.
               r ''HeightInMeters'' = D (Fin h) \<longrightarrow>
                 col_pow2 en (r ''HeightInMeters'') =
                   D (if h = 0 then Fin 0 else round_pow en (h ^ 2)))
         \<and> (\<forall>r\<in>set (rows df). \<forall>w h q.
               r ''WeightInKilograms'' = D (Fin w) \<and> r ''HeightInMeters'' = D (Fin h)
               \<and> h \<noteq> 0 \<and> round_pow en (h ^ 2) = Fin q \<and> q \<noteq> 0 \<longrightarrow>
                 bmi en r = D (round_div en (w / q)))
         \<and> (\<forall>r\<in>set (rows df).
               bmi en r = D PInf \<or> bmi en r = D NInf \<longrightarrow>
                 r(''BMI_Calculated'' := bmi en r) \<in> set (rows out))"
proof -
  let ?excluded = "\<lambda>r. r ''WeightInKilograms'' = Null \<or> r ''HeightInMeters'' = Null
                             \<or> col_pow2 en (r ''HeightInMeters'') = D (Fin 0)
                             \<or> bmi en r = D NaN"
  have same: "(isNotNull (bmi en r) \<and> \<not> isnan (bmi en r)) = (\<not> ?excluded r)"
    if "r \<in> set (rows df)" for r
    using normalized_operands [OF norm that] keep_iff [of r en] by blast
  then have "filter (\<lambda>r. isNotNull (bmi en r) \<and> \<not> isnan (bmi en r)) (rows df) =
        filter (\<lambda>r. \<not> ?excluded r) (rows df)"
    by (intro filter_cong refl)
  then have first: "rows out =
           map (\<lambda>r. r(''BMI_Calculated'' := bmi en r)) (filter (\<lambda>r. \<not> ?excluded r) (rows df))"
    using feature_deriver_Inr(2) [OF der] by simp
  have second: "\<forall>r\<in>set (rows df). \<forall>h.
               r ''HeightInMeters'' = D (Fin h) \<longrightarrow>
                 col_pow2 en (r ''HeightInMeters'') =
                   D (if h = 0 then Fin 0 else round_pow en (h ^ 2))"
    by simp
  have third: "\<forall>r\<in>set (rows df). \<forall>w h q.
               r ''WeightInKilograms'' = D (Fin w) \<and> r ''HeightInMeters'' = D (Fin h)
               \<and> h \<noteq> 0 \<and> round_pow en (h ^ 2) = Fin q \<and> q \<noteq> 0 \<longrightarrow>
                 bmi en r = D (round_div en (w / q))"
    by (simp add: bmi_def)
  have fourth: "\<forall>r\<in>set (rows df).
               bmi en r = D PInf \<or> bmi en r = D NInf \<longrightarrow>
                 r(''BMI_Calculated'' := bmi en r) \<in> set (rows out)"
  proof (intro ballI impI)
    fix r assume r: "r \<in> set (rows df)" and inf: "bmi en r = D PInf \<or> bmi en r = D NInf"
    then have "isNotNull (bmi en r) \<and> \<not> isnan (bmi en r)"
      by (auto simp: isNotNull_def isnan_def)
    with same [OF r] have "\<not> ?excluded r"
      by simp
    with r show "r(''BMI_Calculated'' := bmi en r) \<in> set (rows out)"
      unfolding first by simp
  qed
  from first second third fourth show ?thesis
    by blast
qed

text \<open>
  Against C1 as stated: a record with infinite weight and height 2 has the derived
  value +Infinity, which is not a finite number, and it is in the output.
\<close>

theorem feature_deriver_keeps_infinity:
  "result_column ''BMI_Calculated'' (feature_deriver no_env infinite_weight_df) = Some [D PInf]"
proof -
  have "in_range 4 = Fin 4"
    by (simp add: in_range_def)
  then show ?thesis
    by (simp add: result_column_def column_def feature_deriver_def infinite_weight_df_def
        withColumn_def filter_rows_def resolve_def and_then_def bmi_def isNotNull_def isnan_def
        no_env_def)
qed

lemma measured_normalized:
  "\<exists>df. schema_normalizer no_env measured_df = Inr df"
  by (simp add: schema_normalizer_def and_then_eq_Inr withColumn_Inr measured_df_def)

lemma in_range_samples:
  "in_range 4 = Fin 4 \<and> in_range 1 = Fin 1 \<and> in_range (80 / 4) = Fin 20
   \<and> in_range ((1 / 10 ^ 200) ^ 2) = Fin 0
   \<and> in_range ((1 / 10 ^ 100) ^ 2) = Fin (1 / 10 ^ 200)
   \<and> in_range (10 ^ 200 / (1 / 10 ^ 200)) = PInf
   \<and> in_range ((10 ^ 200) ^ 2) = PInf"
  by (simp add: in_range_def power_divide divide_simps)

theorem feature_deriver_contract_witness:
  "\<exists>df out. schema_normalizer no_env measured_df = Inr df \<and> feature_deriver no_env df = Inr out
      \<and> length (rows df) = 8
      \<and> column ''BMI_Calculated'' out = [D (Fin 20), D NInf, D PInf]"
proof -
  from measured_normalized obtain df where norm: "schema_normalizer no_env measured_df = Inr df"
    by blast
  note shape = schema_normalizer_Inr [OF norm]
  have "set [''WeightInKilograms'', ''HeightInMeters''] \<subseteq> set (cols df)"
    by (simp add: shape(1) measured_df_def)
  then obtain out where der: "feature_deriver no_env df = Inr out"
    by (simp add: feature_deriver_def and_then_eq_Inr withColumn_Inr filter_rows_Inr)
  have arith: "round_pow no_env = in_range" "round_div no_env = in_range"
    by (simp_all add: no_env_def)
  from feature_deriver_contract [OF norm der]
  have "rows out =
           map (\<lambda>r. r(''BMI_Calculated'' := bmi no_env r))
             (filter (\<lambda>r. \<not> (r ''WeightInKilograms'' = Null \<or> r ''HeightInMeters'' = Null
                             \<or> col_pow2 no_env (r ''HeightInMeters'') = D (Fin 0)
                             \<or> bmi no_env r = D NaN)) (rows df))"
    by blast
  then have "column ''BMI_Calculated'' out = [D (Fin 20), D NInf, D PInf]"
    using in_range_samples
    by (simp add: column_def shape(2) measured_df_def cast_double_def bmi_def arith)
  moreover have "length (rows df) = 8"
    by (simp add: shape(2) measured_df_def)
  ultimately show ?thesis
    using norm der by blast
qed

section \<open>The label and the pipeline as a whole\<close>

lemma label_encoder_Inr:
  "label_encoder d = Inr d' \<longleftrightarrow>
     ''HadHeartAttack'' \<in> set (cols d) \<and>
     d' = \<lparr>cols = (if ''HadHeartAttack_Numeric'' \<in> set (cols d) then cols d
                   else cols d @ [''HadHeartAttack_Numeric'']),
           rows = map (\<lambda>r. r(''HadHeartAttack_Numeric'' := label_value (r ''HadHeartAttack''))) (rows d)\<rparr>"
  by (simp add: label_encoder_def withColumn_Inr)

lemma yes_as_boolean: "string_to_boolean ''Yes'' = Some True"
  by (simp add: string_to_boolean_def lower_char_def Let_def)

lemma label_value_eq: "label_value v = (if v = S ''Yes'' \<or> v = B True then I 1 else I 0)"
  by (cases v) (simp_all add: label_value_def when_otherwise_def col_eq_lit_def yes_as_boolean)

lemma final_df_bq_Inr:
  assumes "final_df_bq en df = Inr out"
  obtains model processed where "pipeline_fit en transform_pipeline df = Inr model"
    and "pipeline_transform model df = Inr processed"
    and "set final_bq_cols \<subseteq> set (cols processed)"
    and "cols out = final_bq_cols"
    and "rows out = map (\<lambda>r c. if c \<in> set final_bq_cols then r c else Null) (rows processed)"
  using assms by (auto simp: final_df_bq_def and_then_eq_Inr select_cols_Inr)

lemma final_df_bq_cols:
  assumes "final_df_bq en df = Inr out"
  shows "cols out = final_bq_cols"
  using assms by (rule final_df_bq_Inr)

lemma final_df_bq_rows:
  assumes fin: "final_df_bq en df = Inr out" and r': "r' \<in> set (rows out)"
  shows "\<exists>r\<in>set (rows df). \<forall>c\<in>set (''HadHeartAttack_Numeric'' # numerical_cols). r' c = r c"
proof -
  from fin obtain model processed where fit: "pipeline_fit en transform_pipeline df = Inr model"
    and tr: "pipeline_transform model df = Inr processed"
    and rows_out: "rows out = map (\<lambda>r c. if c \<in> set final_bq_cols then r c else Null) (rows processed)"
    by (rule final_df_bq_Inr)
  from r' rows_out obtain r1 where r1: "r1 \<in> set (rows processed)"
    and r'_eq: "r' = (\<lambda>c. if c \<in> set final_bq_cols then r1 c else Null)"
    by auto
  from pipeline_transform_rows [OF tr r1] obtain r where r: "r \<in> set (rows df)"
    and same: "\<forall>x. x \<notin> fitted_out ` set model \<longrightarrow> r1 x = r x"
    by blast
  have "map snd (map (\<lambda>m. (fitted_ins m, fitted_out m)) model) =
        map snd (map (\<lambda>s. (stage_ins s, stage_out s)) transform_pipeline)"
    using pipeline_fit_shape [OF fit] by simp
  then have "map fitted_out model = map stage_out transform_pipeline"
    by (simp add: comp_def)
  then have "set (map fitted_out model) = set (map stage_out transform_pipeline)"
    by simp
  then have outs: "fitted_out ` set model =
      set indexed_cols \<union> {''num_features_unscaled'', ''num_features_scaled''}"
    by (simp add: pipeline_outputs)
  have "\<forall>c\<in>set (''HadHeartAttack_Numeric'' # numerical_cols). r' c = r c"
  proof
    fix c assume c: "c \<in> set (''HadHeartAttack_Numeric'' # numerical_cols)"
    then have "c \<in> set final_bq_cols"
      by (auto simp: final_bq_cols_def)
    moreover from c have "c \<notin> set indexed_cols"
      using kept_not_indexed by auto
    moreover from c have "c \<noteq> ''num_features_unscaled'' \<and> c \<noteq> ''num_features_scaled''"
      by (auto simp: numerical_cols_def)
    ultimately show "r' c = r c"
      using same outs by (simp add: r'_eq)
  qed
  with r show ?thesis
    by blast
qed

lemma final_df_bq_succeeds:
  assumes "pipeline_ready (cols df)"
  shows "\<exists>out. final_df_bq en df = Inr out"
proof -
  from pipeline_fit_succeeds [OF ready_fit_schema [OF assms]]
  obtain model where fit: "pipeline_fit en transform_pipeline df = Inr model"
    by blast
  have "result_cols (pipeline_transform model df) =
          Some (cols df @ indexed_cols @ [''num_features_unscaled'', ''num_features_scaled''])"
    by (simp add: pipeline_transform_cols pipeline_fit_shape [OF fit] ready_schema_after [OF assms])
  then obtain processed where tr: "pipeline_transform model df = Inr processed"
    and pc: "cols processed = cols df @ indexed_cols @ [''num_features_unscaled'', ''num_features_scaled'']"
    by (cases "pipeline_transform model df") (auto simp: result_cols_def)
  have "set final_bq_cols \<subseteq> set (cols processed)"
    using assms by (auto simp: pc final_bq_cols_def pipeline_ready_def)
  then obtain out where "select_cols final_bq_cols processed = Inr out"
    by (simp add: select_cols_Inr)
  with fit tr show ?thesis
    by (simp add: final_df_bq_def and_then_Inr)
qed

lemma final_bq_cols_facts:
  "distinct final_bq_cols
   \<and> ''HadHeartAttack'' \<notin> set final_bq_cols
   \<and> ''HeightInMeters'' \<notin> set final_bq_cols \<and> ''WeightInKilograms'' \<notin> set final_bq_cols
   \<and> set categorical_cols \<inter> set final_bq_cols = {}
   \<and> ''num_features_unscaled'' \<notin> set final_bq_cols
   \<and> ''num_features_scaled'' \<notin> set final_bq_cols"
proof -
  have "distinct numerical_cols \<and> ''HadHeartAttack_Numeric'' \<notin> set numerical_cols"
    by (simp add: numerical_cols_def)
  then have "distinct final_bq_cols"
    using distinct_indexed_cols kept_not_indexed by (auto simp: final_bq_cols_def)
  moreover have "''HadHeartAttack'' \<notin> set final_bq_cols
     \<and> ''HeightInMeters'' \<notin> set final_bq_cols \<and> ''WeightInKilograms'' \<notin> set final_bq_cols"
    using raw_not_indexed by (simp add: final_bq_cols_def numerical_cols_def)
  moreover have "set categorical_cols \<inter> set final_bq_cols = {}"
    using indexed_not_categorical kept_not_categorical by (auto simp: final_bq_cols_def)
  moreover have "''num_features_unscaled'' \<notin> set final_bq_cols
     \<and> ''num_features_scaled'' \<notin> set final_bq_cols"
    using vectors_not_indexed by (simp add: final_bq_cols_def numerical_cols_def)
  ultimately show ?thesis
    by blast
qed

section \<open>The output projection\<close>

text \<open>
  C2.  The dataset handed to the sink has exactly these columns: the numeric label,
  one index column for each categorical column, and the numerical columns.  They are
  pairwise different; none is the raw outcome, the raw height or weight, a categorical
  text column, or the assembled or the scaled vector.  The numerical columns are raw:
  every output row holds in them the values of an input row of the pipeline.
\<close>

theorem final_output_projection:
  assumes "final_df_bq en df = Inr out"
  shows "cols out = [''HadHeartAttack_Numeric''] @ map (\<lambda>c. c @ ''_indexed'') categorical_cols
                      @ numerical_cols
       \<and> distinct (cols out)
       \<and> ''HadHeartAttack'' \<notin> set (cols out)
       \<and> ''HeightInMeters'' \<notin> set (cols out) \<and> ''WeightInKilograms'' \<notin> set (cols out)
       \<and> set categorical_cols \<inter> set (cols out) = {}
       \<and> ''num_features_unscaled'' \<notin> set (cols out)
       \<and> ''num_features_scaled'' \<notin> set (cols out)
       \<and> (\<forall>r'\<in>set (rows out). \<exists>r\<in>set (rows df). \<forall>c\<in>set numerical_cols. r' c = r c)"
proof -
  have "cols out = final_bq_cols"
    using assms by (rule final_df_bq_cols)
  moreover have "\<forall>r'\<in>set (rows out). \<exists>r\<in>set (rows df). \<forall>c\<in>set numerical_cols. r' c = r c"
    using final_df_bq_rows [OF assms] by fastforce
  ultimately show ?thesis
    using final_bq_cols_facts by (simp add: final_bq_cols_def indexed_cols_def)
qed

section \<open>The run as a whole\<close>

lemma clean_Inr:
  assumes "clean en path = Inr df"
  obtains d0 where "read_csv en path = Inr d0"
    and "cols df = filter (\<lambda>c. c \<notin> set dropped_cols)
           (let cs = (if ''BMI_Calculated'' \<in> set (cols d0) then cols d0
                      else cols d0 @ [''BMI_Calculated''])
            in if ''HadHeartAttack_Numeric'' \<in> set cs then cs else cs @ [''HadHeartAttack_Numeric''])"
proof -
  from assms obtain d0 d1 d2 d3 where "read_csv en path = Inr d0"
    and "schema_normalizer en d0 = Inr d1" and "feature_deriver en d1 = Inr d2"
    and "label_encoder d2 = Inr d3" and "df = drop_cols dropped_cols d3"
    by (auto simp: clean_def and_then_eq_Inr)
  then show ?thesis
    using that [of d0] schema_normalizer_Inr(1) [of en d0 d1] feature_deriver_Inr(1) [of en d1 d2]
    by (simp add: label_encoder_Inr drop_cols_def Let_def)
qed

lemma clean_succeeds:
  assumes "read_csv en path = Inr d0"
      and "{''WeightInKilograms'', ''HeightInMeters'', ''HadHeartAttack''} \<subseteq> set (cols d0)"
  shows "\<exists>df. clean en path = Inr df"
proof -
  from assms(2) obtain d1 where d1: "schema_normalizer en d0 = Inr d1"
    by (auto simp: schema_normalizer_def and_then_eq_Inr withColumn_Inr)
  from assms(2) schema_normalizer_Inr(1) [OF d1] obtain d2 where d2: "feature_deriver en d1 = Inr d2"
    by (auto simp: feature_deriver_def and_then_eq_Inr withColumn_Inr filter_rows_Inr)
  from assms(2) schema_normalizer_Inr(1) [OF d1] feature_deriver_Inr(1) [OF d2]
  have "''HadHeartAttack'' \<in> set (cols d2)"
    by auto
  then obtain d3 where "label_encoder d2 = Inr d3"
    by (simp add: label_encoder_Inr)
  with assms(1) d1 d2 show ?thesis
    by (simp add: clean_def and_then_Inr)
qed

lemma dropped_facts:
  "set categorical_cols \<inter> set dropped_cols = {} \<and> set numerical_cols \<inter> set dropped_cols = {}
   \<and> ''HadHeartAttack_Numeric'' \<notin> set dropped_cols"
  by (simp add: categorical_cols_def dropped_cols_def numerical_cols_def)

lemma clean_ready:
  assumes "clean en path = Inr df" and "read_csv en path = Inr d0"
      and "set categorical_cols \<subseteq> set (cols d0)"
      and "{''PhysicalHealthDays'', ''MentalHealthDays'', ''SleepHours''} \<subseteq> set (cols d0)"
      and "set indexed_cols \<inter> set (cols d0) = {}"
      and "''num_features_unscaled'' \<notin> set (cols d0)" and "''num_features_scaled'' \<notin> set (cols d0)"
  shows "pipeline_ready (cols df)"
proof -
  from assms(1,2) have cols_df: "cols df = filter (\<lambda>c. c \<notin> set dropped_cols)
           (let cs = (if ''BMI_Calculated'' \<in> set (cols d0) then cols d0
                      else cols d0 @ [''BMI_Calculated''])
            in if ''HadHeartAttack_Numeric'' \<in> set cs then cs else cs @ [''HadHeartAttack_Numeric''])"
    by (auto elim: clean_Inr)
  have sub: "set (cols df) \<subseteq> set (cols d0) \<union> {''BMI_Calculated'', ''HadHeartAttack_Numeric''}"
    by (auto simp: cols_df Let_def split: if_splits)
  have sup: "(set (cols d0) \<union> {''BMI_Calculated'', ''HadHeartAttack_Numeric''}) - set dropped_cols
               \<subseteq> set (cols df)"
    by (auto simp: cols_df Let_def)
  have "set categorical_cols \<subseteq> set (cols df)"
    using sup assms(3) dropped_facts by blast
  moreover have "set numerical_cols \<subseteq> set (cols df)"
  proof -
    have "set numerical_cols \<subseteq> set (cols d0) \<union> {''BMI_Calculated'', ''HadHeartAttack_Numeric''}"
      using assms(4) by (auto simp: numerical_cols_def)
    then show ?thesis
      using sup dropped_facts by blast
  qed
  moreover have "''HadHeartAttack_Numeric'' \<in> set (cols df)"
    using sup dropped_facts by blast
  moreover have "set indexed_cols \<inter> set (cols df) = {}"
  proof -
    have "''BMI_Calculated'' \<notin> set indexed_cols"
      using kept_not_indexed by (auto simp: numerical_cols_def)
    then show ?thesis
      using sub assms(5) kept_not_indexed by blast
  qed
  moreover have "''num_features_unscaled'' \<notin> set (cols df) \<and> ''num_features_scaled'' \<notin> set (cols df)"
    using sub assms(6,7) by auto
  ultimately show ?thesis
    by (simp add: pipeline_ready_def)
qed

lemma saved_main:
  "saved (main en path) = Some t \<longleftrightarrow>
     (\<exists>df. clean en path = Inr df \<and> final_df_bq en df = Inr t
         \<and> bq_save en BIGQUERY_OUTPUT_TABLE GCS_STAGING_BUCKET t = None)"
  by (auto simp: main_def split: sum.splits option.splits)

lemma saved_program: "saved (program en argv) = saved (main en (fst (module_level argv)))"
  by (simp add: program_def Let_def split: prod.splits)

lemma survey_header:
  "{''WeightInKilograms'', ''HeightInMeters'', ''HadHeartAttack''} \<subseteq> set raw_cols
   \<and> set categorical_cols \<subseteq> set raw_cols
   \<and> {''PhysicalHealthDays'', ''MentalHealthDays'', ''SleepHours''} \<subseteq> set raw_cols
   \<and> set indexed_cols \<inter> set raw_cols = {}
   \<and> ''num_features_unscaled'' \<notin> set raw_cols \<and> ''num_features_scaled'' \<notin> set raw_cols"
proof -
  have "set indexed_cols \<inter> {''State'', ''PhysicalHealthDays'', ''MentalHealthDays'', ''SleepHours'',
          ''HadHeartAttack'', ''HeightInMeters'', ''WeightInKilograms'', ''BMI''} = {}"
    by (simp add: indexed_cols_def categorical_cols_def)
  then have "set indexed_cols \<inter> set raw_cols = {}"
    using indexed_not_categorical by (auto simp: raw_cols_def)
  moreover have "''num_features_unscaled'' \<notin> set categorical_cols
      \<and> ''num_features_scaled'' \<notin> set categorical_cols"
    by (simp add: categorical_cols_def)
  ultimately show ?thesis
    by (auto simp: raw_cols_def)
qed

lemma survey_run:
  "\<exists>df out. clean survey_env path = Inr df \<and> final_df_bq survey_env df = Inr out"
proof -
  have rd: "read_csv survey_env path = Inr survey_df"
    by (simp add: survey_env_def)
  have hd: "cols survey_df = raw_cols"
    by (simp add: survey_df_def)
  from clean_succeeds [OF rd] survey_header obtain df where df: "clean survey_env path = Inr df"
    by (auto simp: hd)
  have "pipeline_ready (cols df)"
    using clean_ready [OF df rd] survey_header by (simp add: hd)
  from final_df_bq_succeeds [OF this] df show ?thesis
    by blast
qed

theorem final_output_projection_witness:
  "\<exists>df out. clean survey_env GCS_FILE_PATH = Inr df \<and> final_df_bq survey_env df = Inr out
     \<and> take 3 (cols out) = [''HadHeartAttack_Numeric'', ''Sex_indexed'', ''GeneralHealth_indexed'']
     \<and> length (cols out) = 37
     \<and> ''HadHeartAttack'' \<notin> set (cols out)"
proof -
  from survey_run obtain df out where df: "clean survey_env GCS_FILE_PATH = Inr df"
    and out: "final_df_bq survey_env df = Inr out"
    by blast
  from final_output_projection [OF out]
  have "cols out = [''HadHeartAttack_Numeric''] @ map (\<lambda>c. c @ ''_indexed'') categorical_cols
                      @ numerical_cols" and "''HadHeartAttack'' \<notin> set (cols out)"
    by blast+
  then have "take 3 (cols out) = [''HadHeartAttack_Numeric'', ''Sex_indexed'', ''GeneralHealth_indexed'']
     \<and> length (cols out) = 37 \<and> ''HadHeartAttack'' \<notin> set (cols out)"
    by (simp add: categorical_cols_def numerical_cols_def)
  with df out show ?thesis
    by blast
qed

section \<open>The persisted table\<close>

text \<open>
  C9.  Whenever a run persists a table, its columns are, in this order: the numeric
  label, the 32 index columns in the order of the categorical column list, then
  PhysicalHealthDays, MentalHealthDays, SleepHours and, last, the derived column
  BMI_Calculated.
\<close>

theorem persisted_column_order:
  assumes "saved (program en argv) = Some t"
  shows "cols t =
     [''HadHeartAttack_Numeric'',
      ''Sex_indexed'', ''GeneralHealth_indexed'', ''LastCheckupTime_indexed'',
      ''PhysicalActivities_indexed'', ''RemovedTeeth_indexed'', ''HadAngina_indexed'',
      ''HadStroke_indexed'', ''HadAsthma_indexed'', ''HadSkinCancer_indexed'', ''HadCOPD_indexed'',
      ''HadDepressiveDisorder_indexed'', ''HadKidneyDisease_indexed'', ''HadArthritis_indexed'',
      ''HadDiabetes_indexed'', ''DeafOrHardOfHearing_indexed'', ''BlindOrVisionDifficulty_indexed'',
      ''DifficultyConcentrating_indexed'', ''DifficultyWalking_indexed'',
      ''DifficultyDressingBathing_indexed'', ''DifficultyErrands_indexed'', ''SmokerStatus_indexed'',
      ''ECigaretteUsage_indexed'', ''ChestScan_indexed'', ''RaceEthnicityCategory_indexed'',
      ''AgeCategory_indexed'', ''AlcoholDrinkers_indexed'', ''HIVTesting_indexed'',
      ''FluVaxLast12_indexed'', ''PneumoVaxEver_indexed'', ''TetanusLast10Tdap_indexed'',
      ''HighRiskLastYear_indexed'', ''CovidPos_indexed'',
      ''PhysicalHealthDays'', ''MentalHealthDays'', ''SleepHours'', ''BMI_Calculated'']"
proof -
  from assms obtain df where "final_df_bq en df = Inr t"
    by (auto simp: saved_program saved_main)
  then have "cols t = final_bq_cols"
    by (rule final_df_bq_cols)
  then show ?thesis
    by (simp add: final_bq_cols_def indexed_cols_def categorical_cols_def numerical_cols_def)
qed

theorem persisted_column_order_witness:
  "map_option (\<lambda>t. (hd (cols t), last (cols t), length (cols t)))
     (saved (program survey_env [''dataproc_heart_analysis.py'']))
   = Some (''HadHeartAttack_Numeric'', ''BMI_Calculated'', 37)"
proof -
  from survey_run obtain df out where df: "clean survey_env GCS_FILE_PATH = Inr df"
    and out: "final_df_bq survey_env df = Inr out"
    by blast
  have "bq_save survey_env BIGQUERY_OUTPUT_TABLE GCS_STAGING_BUCKET out = None"
    by (simp add: survey_env_def)
  with df out have "saved (main survey_env GCS_FILE_PATH) = Some out"
    by (auto simp: saved_main)
  then have sv: "saved (program survey_env [''dataproc_heart_analysis.py'']) = Some out"
    by (simp add: saved_program module_level_def)
  from persisted_column_order [OF sv] show ?thesis
    by (simp add: sv)
qed

section \<open>The Label Encoder\<close>

text \<open>
  C6, as amended.  The label column appended at line 39 holds, for every record, 1
  when the raw outcome is the string "Yes" exactly or, in a column read as boolean,
  the value true, and 0 for every other value (null, "No", the empty string, "yes",
  false, a number).  After the drop of line 55 and lines 62-79, the raw outcome column
  is not in the final output, and the label of every output row is the label so
  computed from an input record.
\<close>

theorem label_encoder_contract:
  assumes enc: "label_encoder d = Inr d'"
      and fin: "final_df_bq en (drop_cols dropped_cols d') = Inr out"
  shows "column ''HadHeartAttack_Numeric'' d' =
           map (\<lambda>r. if r ''HadHeartAttack'' = S ''Yes'' \<or> r ''HadHeartAttack'' = B True
                     then I 1 else I 0) (rows d)
       \<and> ''HadHeartAttack'' \<notin> set (cols out)
       \<and> (\<forall>r'\<in>set (rows out). \<exists>r\<in>set (rows d).
             r' ''HadHeartAttack_Numeric'' =
               (if r ''HadHeartAttack'' = S ''Yes'' \<or> r ''HadHeartAttack'' = B True
                then I 1 else I 0))"
proof -
  from enc have rows_d': "rows d' =
      map (\<lambda>r. r(''HadHeartAttack_Numeric'' := label_value (r ''HadHeartAttack''))) (rows d)"
    by (simp add: label_encoder_Inr)
  then have first: "column ''HadHeartAttack_Numeric'' d' =
           map (\<lambda>r. if r ''HadHeartAttack'' = S ''Yes'' \<or> r ''HadHeartAttack'' = B True
                     then I 1 else I 0) (rows d)"
    by (simp add: column_def label_value_eq)
  have second: "''HadHeartAttack'' \<notin> set (cols out)"
    using final_df_bq_cols [OF fin] final_bq_cols_facts by simp
  have third: "\<forall>r'\<in>set (rows out). \<exists>r\<in>set (rows d).
             r' ''HadHeartAttack_Numeric'' =
               (if r ''HadHeartAttack'' = S ''Yes'' \<or> r ''HadHeartAttack'' = B True
                then I 1 else I 0)"
  proof
    fix r' assume "r' \<in> set (rows out)"
    from final_df_bq_rows [OF fin this] obtain r1 where r1: "r1 \<in> set (rows (drop_cols dropped_cols d'))"
      and same: "r' ''HadHeartAttack_Numeric'' = r1 ''HadHeartAttack_Numeric''"
      by auto
    from r1 rows_d' obtain r where r: "r \<in> set (rows d)"
      and "r1 = (\<lambda>c. if c \<in> set dropped_cols then Null
                     else (r(''HadHeartAttack_Numeric'' := label_value (r ''HadHeartAttack''))) c)"
      by (auto simp: drop_cols_def)
    then have "r1 ''HadHeartAttack_Numeric'' = label_value (r ''HadHeartAttack'')"
      using dropped_facts by simp
    with same r show "\<exists>r\<in>set (rows d).
             r' ''HadHeartAttack_Numeric'' =
               (if r ''HadHeartAttack'' = S ''Yes'' \<or> r ''HadHeartAttack'' = B True
                then I 1 else I 0)"
      by (auto simp: label_value_eq)
  qed
  from first second third show ?thesis
    by blast
qed

text \<open>
  Against C6 as stated: in a file whose outcome column is read as boolean, the record
  whose raw outcome is true, which is not the literal "Yes", gets the label 1.
\<close>

theorem boolean_outcome_labelled_one:
  "column ''HadHeartAttack'' truth_df = [B True, B False]
   \<and> result_column ''HadHeartAttack_Numeric'' (label_encoder truth_df) = Some [I 1, I 0]"
  by (simp add: result_column_def column_def label_encoder_def withColumn_def resolve_def
      truth_df_def label_value_eq)

lemma answers_ready:
  assumes "label_encoder answers_df = Inr d'"
  shows "pipeline_ready (cols (drop_cols dropped_cols d'))"
proof -
  have "''HadHeartAttack_Numeric'' \<notin> set (cols answers_df)"
    using kept_not_categorical by (simp add: answers_df_def)
  with assms have "cols d' = cols answers_df @ [''HadHeartAttack_Numeric'']"
    by (simp add: label_encoder_Inr)
  then have "cols (drop_cols dropped_cols d') =
      filter (\<lambda>c. c \<notin> set dropped_cols) (categorical_cols @ numerical_cols @ [''HadHeartAttack''])
        @ [''HadHeartAttack_Numeric'']"
    by (simp add: drop_cols_def answers_df_def numerical_cols_def dropped_cols_def)
  also have "\<dots> = categorical_cols @ numerical_cols @ [''HadHeartAttack_Numeric'']"
    using dropped_facts by (simp add: filter_id_conv disjoint_iff dropped_cols_def)
  finally have "cols (drop_cols dropped_cols d') =
      categorical_cols @ numerical_cols @ [''HadHeartAttack_Numeric'']" .
  moreover have "''num_features_unscaled'' \<notin> set categorical_cols
      \<and> ''num_features_scaled'' \<notin> set categorical_cols"
    by (simp add: categorical_cols_def)
  moreover have "''num_features_unscaled'' \<notin> set numerical_cols
      \<and> ''num_features_scaled'' \<notin> set numerical_cols"
    by (simp add: numerical_cols_def)
  ultimately show ?thesis
    using indexed_not_categorical kept_not_indexed
    by (auto simp: pipeline_ready_def)
qed

theorem label_encoder_contract_witness:
  "\<exists>d' out. label_encoder answers_df = Inr d'
     \<and> final_df_bq no_env (drop_cols dropped_cols d') = Inr out
     \<and> column ''HadHeartAttack'' answers_df =
          [S ''Yes'', S ''No'', Null, S '''', S ''yes'', S ''YES'', B True, B False]
     \<and> column ''HadHeartAttack_Numeric'' d' = [I 1, I 0, I 0, I 0, I 0, I 0, I 1, I 0]
     \<and> ''HadHeartAttack'' \<notin> set (cols out)"
proof -
  have "''HadHeartAttack'' \<in> set (cols answers_df)"
    by (simp add: answers_df_def)
  then obtain d' where enc: "label_encoder answers_df = Inr d'"
    by (simp add: label_encoder_Inr)
  from final_df_bq_succeeds [OF answers_ready [OF enc]]
  obtain out where fin: "final_df_bq no_env (drop_cols dropped_cols d') = Inr out"
    by blast
  have raw: "column ''HadHeartAttack'' answers_df =
      [S ''Yes'', S ''No'', Null, S '''', S ''yes'', S ''YES'', B True, B False]"
    by (simp add: column_def answers_df_def patient_def)
  from label_encoder_contract [OF enc fin]
  have "column ''HadHeartAttack_Numeric'' d' =
           map (\<lambda>r. if r ''HadHeartAttack'' = S ''Yes'' \<or> r ''HadHeartAttack'' = B True
                     then I 1 else I 0) (rows answers_df)"
    and absent: "''HadHeartAttack'' \<notin> set (cols out)"
    by blast+
  then have "column ''HadHeartAttack_Numeric'' d' = [I 1, I 0, I 0, I 0, I 0, I 0, I 1, I 0]"
    by (simp add: answers_df_def patient_def)
  with enc fin raw absent show ?thesis
    by blast
qed

section \<open>The Categorical Encoder\<close>

lemma index_of_correct:
  "v \<in> set xs \<Longrightarrow> index_of xs v < length xs \<and> xs ! index_of xs v = v"
  by (induction xs) auto

lemma schema_after_fresh:
  "schema_after cs sigs = Some cs' \<Longrightarrow> (ins, out) \<in> set sigs \<Longrightarrow> out \<notin> set cs"
proof (induction sigs arbitrary: cs)
  case Nil
  then show ?case by simp
next
  case (Cons sig sigs)
  obtain ins0 out0 where sig: "sig = (ins0, out0)"
    by (cases sig)
  from Cons.prems(1) have ok: "set ins0 \<subseteq> set cs" "out0 \<notin> set cs"
    and rest: "schema_after (cs @ [out0]) sigs = Some cs'"
    by (auto simp: sig split: if_splits)
  show ?case
  proof (cases "(ins, out) = sig")
    case True
    with ok sig show ?thesis by simp
  next
    case False
    with Cons.prems(2) have "(ins, out) \<in> set sigs"
      by simp
    from Cons.IH [OF rest this] show ?thesis
      by simp
  qed
qed

lemma filter_map_pred: "filter P (map g ys) = map g (filter (\<lambda>y. P (g y)) ys)"
  by (simp add: filter_map comp_def)

lemma indexers_transform_rows:
  assumes "pipeline_transform (map (\<lambda>c. StringIndexerModel c (f c) (vocab c)) xs) d = Inr d'"
      and "f ` set xs \<inter> set xs = {}"
  shows "list_all2
           (\<lambda>r r'. (\<forall>c\<in>set xs. r' (f c) = D (Fin (real (index_of (vocab c) (r c)))))
                  \<and> (\<forall>x. x \<notin> f ` set xs \<longrightarrow> r' x = r x))
           (filter (\<lambda>r. \<forall>c\<in>set xs. r c \<noteq> Null \<and> r c \<in> set (vocab c)) (rows d))
           (rows d')"
  using assms
proof (induction xs arbitrary: d)
  case Nil
  then show ?case
    by (simp add: list_all2_same)
next
  case (Cons x xs)
  let ?upd = "\<lambda>r. r(f x := D (Fin (real (index_of (vocab x) (r x)))))"
  let ?K = "\<lambda>ys r. \<forall>c\<in>set ys. r c \<noteq> Null \<and> r c \<in> set (vocab c)"
  let ?P = "\<lambda>ys r r'. (\<forall>c\<in>set ys. r' (f c) = D (Fin (real (index_of (vocab c) (r c)))))
                  \<and> (\<forall>y. y \<notin> f ` set ys \<longrightarrow> r' y = r y)"
  from Cons.prems(1) obtain d1 where
    d1: "transform_stage (StringIndexerModel x (f x) (vocab x)) d = Inr d1"
    and rest: "pipeline_transform (map (\<lambda>c. StringIndexerModel c (f c) (vocab c)) xs) d1 = Inr d'"
    by (auto simp: and_then_eq_Inr)
  from d1 have rows_d1: "rows d1 = map ?upd (filter (\<lambda>r. r x \<noteq> Null \<and> r x \<in> set (vocab x)) (rows d))"
    and cols_d1: "cols d1 = cols d @ [f x]"
    by (auto simp: add_column_def split: option.splits)
  from Cons.prems(2) have disj: "f ` set xs \<inter> set xs = {}" and fx_in: "f x \<notin> set xs" "f x \<noteq> x"
    and x_out: "x \<notin> f ` set xs"
    by auto
  have fresh: "f x \<notin> f ` set xs"
  proof
    assume "f x \<in> f ` set xs"
    then obtain c where c: "c \<in> set xs" "f c = f x"
      by auto
    have "result_cols (pipeline_transform (map (\<lambda>c. StringIndexerModel c (f c) (vocab c)) xs) d1)
            = Some (cols d')"
      by (simp add: rest result_cols_def)
    then have "schema_after (cols d1) (map (\<lambda>c. ([c], f c)) xs) = Some (cols d')"
      by (simp add: pipeline_transform_cols comp_def)
    moreover from c have "([c], f x) \<in> set (map (\<lambda>c. ([c], f c)) xs)"
      by force
    ultimately have "f x \<notin> set (cols d1)"
      by (rule schema_after_fresh)
    then show False
      by (simp add: cols_d1)
  qed
  have keep_upd: "?K xs (?upd r) = ?K xs r" for r
    using fx_in by auto
  have "filter (?K xs) (rows d1) =
        map ?upd (filter (\<lambda>r. ?K xs (?upd r))
          (filter (\<lambda>r. r x \<noteq> Null \<and> r x \<in> set (vocab x)) (rows d)))"
    unfolding rows_d1 by (rule filter_map_pred)
  also have "\<dots> = map ?upd (filter (?K xs)
          (filter (\<lambda>r. r x \<noteq> Null \<and> r x \<in> set (vocab x)) (rows d)))"
    by (simp only: keep_upd)
  also have "\<dots> = map ?upd (filter (?K (x # xs)) (rows d))"
    by simp
  finally have "filter (?K xs) (rows d1) = map ?upd (filter (?K (x # xs)) (rows d))" .
  with Cons.IH [OF rest disj]
  have "list_all2 (\<lambda>r. ?P xs (?upd r)) (filter (?K (x # xs)) (rows d)) (rows d')"
    by (simp add: list_all2_map1)
  moreover have "?P (x # xs) r r'" if "?P xs (?upd r) r'" for r r'
  proof -
    from that fresh have "r' (f x) = D (Fin (real (index_of (vocab x) (r x))))"
      by simp
    moreover from that fx_in have "\<forall>c\<in>set xs. r' (f c) = D (Fin (real (index_of (vocab c) (r c))))"
      by auto
    moreover from that have "\<forall>y. y \<notin> f ` set (x # xs) \<longrightarrow> r' y = r y"
      by auto
    ultimately show ?thesis
      by simp
  qed
  ultimately show ?case
    by (rule list_all2_mono)
qed

text \<open>What \<^verbatim>\<open>Pipeline.fit\<close> returns for the stages of line 72: 32 fitted indexers, the assembler, the fitted scaler.\<close>

lemma indexers_fit_form:
  assumes "pipeline_fit en (map (\<lambda>c. StringIndexer c (g c)) xs @ rest) d = Inr ms"
      and "distinct xs" and "list_ex is_estimator rest"
  shows "\<exists>vocab ms' d'. ms = map (\<lambda>c. StringIndexerModel c (g c) (vocab c)) xs @ ms'
           \<and> pipeline_fit en rest d' = Inr ms'"
  using assms
proof (induction xs arbitrary: d ms)
  case Nil
  then show ?case by auto
next
  case (Cons x xs)
  from Cons.prems(3) have later: "list_ex is_estimator (map (\<lambda>c. StringIndexer c (g c)) xs @ rest)"
    by simp
  from Cons.prems(1) later obtain m d1 ms1 where m: "fit_stage en (StringIndexer x (g x)) d = Inr m"
    and "transform_stage m d = Inr d1"
    and rest: "pipeline_fit en (map (\<lambda>c. StringIndexer c (g c)) xs @ rest) d1 = Inr ms1"
    and ms: "ms = m # ms1"
    by (auto simp: and_then_eq_Inr simp del: list_ex_append)
  from m obtain labels where labels: "m = StringIndexerModel x (g x) labels"
    by (auto split: if_splits)
  from Cons.prems(2) have "distinct xs" and fresh: "x \<notin> set xs"
    by simp_all
  from Cons.IH [OF rest this(1) Cons.prems(3)] obtain vocab ms' d'
    where ms1: "ms1 = map (\<lambda>c. StringIndexerModel c (g c) (vocab c)) xs @ ms'"
      and tail: "pipeline_fit en rest d' = Inr ms'"
    by blast
  let ?vocab = "vocab(x := labels)"
  from fresh have "map (\<lambda>c. StringIndexerModel c (g c) (?vocab c)) xs =
                   map (\<lambda>c. StringIndexerModel c (g c) (vocab c)) xs"
    by (intro map_cong) auto
  with ms ms1 labels have "ms = map (\<lambda>c. StringIndexerModel c (g c) (?vocab c)) (x # xs) @ ms'"
    by simp
  with tail show ?case
    by blast
qed

lemma fitted_pipeline_form:
  assumes "pipeline_fit en transform_pipeline d = Inr model"
  shows "\<exists>vocab f. model =
           map (\<lambda>c. StringIndexerModel c (c @ ''_indexed'') (vocab c)) categorical_cols
             @ [Assembler numerical_cols ''num_features_unscaled'',
                StandardScalerModel ''num_features_unscaled'' ''num_features_scaled'' f]"
proof -
  have fit: "pipeline_fit en (map (\<lambda>c. StringIndexer c (c @ ''_indexed'')) categorical_cols
          @ [num_assembler, num_scaler]) d = Inr model"
    using assms by (simp add: transform_pipeline_def indexers_def)
  have est: "list_ex is_estimator [num_assembler, num_scaler]"
    by (simp add: num_scaler_def)
  from indexers_fit_form [OF fit distinct_categorical_cols est] obtain vocab ms' d' where
    model: "model = map (\<lambda>c. StringIndexerModel c (c @ ''_indexed'') (vocab c)) categorical_cols @ ms'"
    and tail: "pipeline_fit en [num_assembler, num_scaler] d' = Inr ms'"
    by blast
  from tail obtain f where
    "ms' = [Assembler numerical_cols ''num_features_unscaled'',
            StandardScalerModel ''num_features_unscaled'' ''num_features_scaled'' f]"
    by (auto simp: num_assembler_def num_scaler_def and_then_eq_Inr split: if_splits)
  with model show ?thesis
    by blast
qed

text \<open>
  C7.  Apply the 32 fitted indexers, whatever their vocabularies, with
  \<^verbatim>\<open>handleInvalid="skip"\<close>.  The rows that come out are, in order, exactly the input
  rows whose value in every categorical column is not null and is in that column's
  vocabulary (a vocabulary is fitted from non-null values, so a null is absent from
  it): a row with one value outside its vocabulary is gone as a whole.  Each row that
  stays keeps its categorical values and carries, for every categorical column, the
  position of its value in the vocabulary.
\<close>

theorem categorical_encoder_skip_invalid:
  assumes "pipeline_transform
             (map (\<lambda>c. StringIndexerModel c (c @ ''_indexed'') (vocab c)) categorical_cols) d = Inr d'"
  shows "list_all2
           (\<lambda>r r'. \<forall>c\<in>set categorical_cols.
                      r' c = r c
                      \<and> r' (c @ ''_indexed'') = D (Fin (real (index_of (vocab c) (r c))))
                      \<and> index_of (vocab c) (r c) < length (vocab c)
                      \<and> vocab c ! index_of (vocab c) (r c) = r c)
           (filter (\<lambda>r. \<forall>c\<in>set categorical_cols. r c \<noteq> Null \<and> r c \<in> set (vocab c)) (rows d))
           (rows d')"
proof -
  have img: "(\<lambda>c. c @ ''_indexed'') ` set categorical_cols = set indexed_cols"
    by (simp add: indexed_cols_def)
  have "list_all2
           (\<lambda>r r'. (\<forall>c\<in>set categorical_cols.
                       r' (c @ ''_indexed'') = D (Fin (real (index_of (vocab c) (r c)))))
                  \<and> (\<forall>x. x \<notin> (\<lambda>c. c @ ''_indexed'') ` set categorical_cols \<longrightarrow> r' x = r x))
           (filter (\<lambda>r. \<forall>c\<in>set categorical_cols. r c \<noteq> Null \<and> r c \<in> set (vocab c)) (rows d))
           (rows d')"
    using assms indexed_not_categorical
    by (intro indexers_transform_rows) (simp_all add: img)
  then show ?thesis
  proof (rule list.rel_mono_strong)
    fix r r'
    assume kept: "r \<in> set (filter (\<lambda>r. \<forall>c\<in>set categorical_cols. r c \<noteq> Null \<and> r c \<in> set (vocab c)) (rows d))"
      and P: "(\<forall>c\<in>set categorical_cols.
                       r' (c @ ''_indexed'') = D (Fin (real (index_of (vocab c) (r c)))))
                  \<and> (\<forall>x. x \<notin> (\<lambda>c. c @ ''_indexed'') ` set categorical_cols \<longrightarrow> r' x = r x)"
    show "\<forall>c\<in>set categorical_cols.
                      r' c = r c
                      \<and> r' (c @ ''_indexed'') = D (Fin (real (index_of (vocab c) (r c))))
                      \<and> index_of (vocab c) (r c) < length (vocab c)
                      \<and> vocab c ! index_of (vocab c) (r c) = r c"
    proof
      fix c assume c: "c \<in> set categorical_cols"
      with indexed_not_categorical have "c \<notin> (\<lambda>c. c @ ''_indexed'') ` set categorical_cols"
        by (auto simp: img)
      with P have "r' c = r c"
        by blast
      moreover from kept c have "r c \<in> set (vocab c)"
        by simp
      ultimately show "r' c = r c
                      \<and> r' (c @ ''_indexed'') = D (Fin (real (index_of (vocab c) (r c))))
                      \<and> index_of (vocab c) (r c) < length (vocab c)
                      \<and> vocab c ! index_of (vocab c) (r c) = r c"
        using P c index_of_correct [of "r c" "vocab c"] by blast
    qed
  qed
qed


lemma patient_categorical:
  assumes "c \<in> set categorical_cols"
  shows "patient heart sex weight height c = (if c = ''Sex'' then sex else S ''No'')"
proof -
  have "''State'' \<notin> set categorical_cols \<and> ''HadHeartAttack'' \<notin> set categorical_cols
      \<and> ''WeightInKilograms'' \<notin> set categorical_cols \<and> ''HeightInMeters'' \<notin> set categorical_cols
      \<and> ''BMI'' \<notin> set categorical_cols"
    by (simp add: categorical_cols_def)
  with assms show ?thesis
    by (auto simp: patient_def)
qed

lemma sex_categorical: "''Sex'' \<in> set categorical_cols \<and> ''HadAngina'' \<in> set categorical_cols"
  by (simp add: categorical_cols_def)

theorem categorical_encoder_skip_invalid_witness:
  "\<exists>d'. pipeline_transform
           (map (\<lambda>c. StringIndexerModel c (c @ ''_indexed'') (known_vocabulary c)) categorical_cols)
           survey_df = Inr d'
     \<and> column ''Sex'' survey_df = [S ''Female'', S ''Male'', Null]
     \<and> column ''Sex'' d' = [S ''Female'']
     \<and> column ''Sex_indexed'' d' = [D (Fin 0)]
     \<and> column ''HadAngina_indexed'' d' = [D (Fin 1)]"
proof -
  let ?ms = "map (\<lambda>c. StringIndexerModel c (c @ ''_indexed'') (known_vocabulary c)) categorical_cols"
  let ?K = "\<lambda>r. \<forall>c\<in>set categorical_cols. r c \<noteq> Null \<and> r c \<in> set (known_vocabulary c)"
  let ?p1 = "patient (S ''Yes'') (S ''Female'') (D (Fin 80)) (D (Fin 2))"
  have "schema_after raw_cols (map (\<lambda>c. ([c], c @ ''_indexed'')) categorical_cols @ []) =
        schema_after (raw_cols @ map (\<lambda>c. c @ ''_indexed'') categorical_cols) []"
  proof (rule indexers_schema_after)
    show "set categorical_cols \<subseteq> set raw_cols"
      using survey_header by blast
    show "distinct (map (\<lambda>c. c @ ''_indexed'') categorical_cols)"
      using distinct_indexed_cols by (simp add: indexed_cols_def)
    show "(\<lambda>c. c @ ''_indexed'') ` set categorical_cols \<inter> set raw_cols = {}"
      using survey_header by (simp add: indexed_cols_def)
  qed
  then have "result_cols (pipeline_transform ?ms survey_df) =
        Some (raw_cols @ map (\<lambda>c. c @ ''_indexed'') categorical_cols)"
    by (simp add: pipeline_transform_cols comp_def survey_df_def)
  then obtain d' where d': "pipeline_transform ?ms survey_df = Inr d'"
    by (cases "pipeline_transform ?ms survey_df") (auto simp: result_cols_def)
  have k1: "?K ?p1"
    by (simp add: patient_categorical known_vocabulary_def)
  have k2: "\<not> ?K (patient (S ''No'') (S ''Male'') (D (Fin 70)) Null)"
    using sex_categorical by (auto simp: patient_categorical known_vocabulary_def)
  have k3: "\<not> ?K (patient Null Null (D (Fin 60)) (D (Fin 1)))"
    using sex_categorical by (auto simp: patient_categorical known_vocabulary_def)
  have kept: "filter ?K (rows survey_df) = [?p1]"
    using k1 k2 k3 by (simp add: survey_df_def)
  from categorical_encoder_skip_invalid [OF d'] obtain r' where rows_d': "rows d' = [r']"
    and idx: "\<forall>c\<in>set categorical_cols.
                      r' c = ?p1 c
                      \<and> r' (c @ ''_indexed'') = D (Fin (real (index_of (known_vocabulary c) (?p1 c))))"
    unfolding kept by (auto simp: list_all2_Cons1)
  from idx sex_categorical have "r' ''Sex'' = S ''Female''" and "r' ''Sex_indexed'' = D (Fin 0)"
    and "r' ''HadAngina_indexed'' = D (Fin 1)"
    by (auto simp: patient_categorical known_vocabulary_def)
  moreover have "column ''Sex'' survey_df = [S ''Female'', S ''Male'', Null]"
    by (simp add: column_def survey_df_def patient_def)
  ultimately show ?thesis
    using d' by (simp add: column_def rows_d')
qed

section \<open>Failures\<close>

text \<open>
  The four ways through \<open>main\<close>.  A failure of the cleaning or of the write is printed
  and \<open>main\<close> returns; a failure of lines 62-79 leaves \<open>main\<close> as an exception, with
  nothing printed and the session not stopped.
\<close>

lemma main_outcomes:
  "(clean en path = Inl e \<longrightarrow>
      main en path = \<lparr>stdout = [init_message, ''ERROR during processing: '' @ describe e],
                       stopped = True, saved = None, outcome = Returned\<rparr>)
   \<and> (clean en path = Inr df \<and> final_df_bq en df = Inl e \<longrightarrow>
      main en path = \<lparr>stdout = [init_message], stopped = False, saved = None, outcome = Raised e\<rparr>)
   \<and> (clean en path = Inr df \<and> final_df_bq en df = Inr out
        \<and> bq_save en BIGQUERY_OUTPUT_TABLE GCS_STAGING_BUCKET out = Some e \<longrightarrow>
      main en path = \<lparr>stdout = [init_message, ''ERROR: Could not write to BigQuery: '' @ describe e],
                       stopped = True, saved = None, outcome = Returned\<rparr>)
   \<and> (clean en path = Inr df \<and> final_df_bq en df = Inr out
        \<and> bq_save en BIGQUERY_OUTPUT_TABLE GCS_STAGING_BUCKET out = None \<longrightarrow>
      main en path = \<lparr>stdout = [init_message, success_message],
                       stopped = True, saved = Some out, outcome = Returned\<rparr>)"
  by (simp add: main_def)

lemma pipeline_fit_missing_input:
  "i \<notin> set (cols d) \<Longrightarrow> pipeline_fit en (StringIndexer i out # ss) d = Inl (IllegalArgumentException i)"
  by (simp add: and_then_Inl)

lemma first_indexer:
  "\<exists>ss. transform_pipeline = StringIndexer ''Sex'' ''Sex_indexed'' # ss"
  by (simp add: transform_pipeline_def indexers_def categorical_cols_def)

lemma final_df_bq_without_sex:
  assumes "''Sex'' \<notin> set (cols df)"
  shows "final_df_bq en df = Inl (IllegalArgumentException ''Sex'')"
proof -
  from first_indexer obtain ss where head: "transform_pipeline = StringIndexer ''Sex'' ''Sex_indexed'' # ss"
    by blast
  have "pipeline_fit en transform_pipeline df = Inl (IllegalArgumentException ''Sex'')"
    unfolding head using assms by (rule pipeline_fit_missing_input)
  then show ?thesis
    by (simp add: final_df_bq_def and_then_Inl)
qed

text \<open>
  C5.  The claim does not hold of the code at the ML pipeline.  On a survey file whose
  header lacks the column Sex the cleaning goes through, the first indexer cannot be
  fitted, and the exception leaves \<open>main\<close>: no message is printed for it and
  \<^verbatim>\<open>spark.stop()\<close> is not reached.
\<close>

theorem fit_failure_leaves_main:
  "main sexless_env GCS_FILE_PATH =
     \<lparr>stdout = [init_message], stopped = False, saved = None,
      outcome = Raised (IllegalArgumentException ''Sex'')\<rparr>"
proof -
  have rd: "read_csv sexless_env GCS_FILE_PATH = Inr sexless_df"
    by (simp add: sexless_env_def)
  have "{''WeightInKilograms'', ''HeightInMeters'', ''HadHeartAttack''} \<subseteq> set (cols sexless_df)"
    by (simp add: sexless_df_def)
  from clean_succeeds [OF rd this] obtain df where df: "clean sexless_env GCS_FILE_PATH = Inr df"
    by blast
  from df rd have "cols df = [''BMI_Calculated'', ''HadHeartAttack_Numeric'']"
    by (auto elim!: clean_Inr simp: sexless_df_def dropped_cols_def Let_def)
  then have "''Sex'' \<notin> set (cols df)"
    by simp
  then have "final_df_bq sexless_env df = Inl (IllegalArgumentException ''Sex'')"
    by (rule final_df_bq_without_sex)
  with df show ?thesis
    using main_outcomes [of sexless_env GCS_FILE_PATH _ df] by blast
qed

end
